theory Spec2Isabelle
  imports Complex_Main
begin

section \<open>Data model (GraphVisualizer.tsx, lines 4-15)\<close>

text \<open>
  The TypeScript type \<^verbatim>\<open>number\<close> is modelled in two ways, following its use in the
  source. Vertex ids, edge endpoints and the two counts given to the generator are
  integers (\<^typ>\<open>int\<close>); coordinates, forces, the ideal edge length and the temperature
  are real numbers (\<^typ>\<open>real\<close>): rounding and overflow of IEEE doubles are outside the
  model. The field \<^verbatim>\<open>id\<close> is called \<open>id'\<close>, since \<open>id\<close> is the identity function of HOL.
\<close>

record Vertex =
  id' :: int
  x :: real
  y :: real
  dx :: real
  dy :: real

record Edge =
  source :: int
  target :: int

record Graph =
  vertices :: "Vertex list"
  edges :: "Edge list"

text \<open>
  Outcomes of a call other than a normal return with finite numbers. \<open>TypeError\<close> is the
  exception JavaScript throws on reading a property of \<^verbatim>\<open>undefined\<close>. \<open>NonFinite\<close> marks
  a division by zero: JavaScript does not throw there, it goes on with \<^verbatim>\<open>Infinity\<close> or
  \<^verbatim>\<open>NaN\<close>, and real arithmetic no longer describes the run, so the model stops.
\<close>

datatype error = TypeError | NonFinite

section \<open>generateRandomGraph (lines 18-47)\<close>

text \<open>
  \<^verbatim>\<open>Math.random()\<close> is an oracle: the model takes the sequence of its results as the
  parameter \<open>rnd\<close> and threads the position \<open>p\<close> of the next unread one.
  \<^verbatim>\<open>Math.floor(Math.random() * numVertices)\<close>:
\<close>

definition randomIndex :: "(nat \<Rightarrow> real) \<Rightarrow> nat \<Rightarrow> int \<Rightarrow> int" where
  "randomIndex rnd p numVertices = \<lfloor>rnd p * of_int numVertices\<rfloor>"

text \<open>
  The loop of lines 24-32: \<open>i\<close> counts up while \<open>i < numVertices\<close>; each vertex reads two
  random numbers, \<open>x\<close> first.
\<close>

function placeVertices ::
  "(nat \<Rightarrow> real) \<Rightarrow> int \<Rightarrow> int \<Rightarrow> Vertex list \<Rightarrow> nat \<Rightarrow> Vertex list \<times> nat" where
  "placeVertices rnd numVertices i vs p =
     (if i < numVertices
      then placeVertices rnd numVertices (i + 1)
             (vs @ [\<lparr>id' = i, x = rnd p * 800, y = rnd (p + 1) * 600, dx = 0, dy = 0\<rparr>])
             (p + 2)
      else (vs, p))"
  by pat_completeness auto
termination
  by (relation "measure (\<lambda>(rnd, numVertices, i, vs, p). nat (numVertices - i))") auto

text \<open>
  The key of an edge in \<^verbatim>\<open>edgeSet\<close>: the source builds the string \<^verbatim>\<open>"a,b"\<close> with the
  smaller id first. The decimal rendering of two integers around a comma determines
  both, so the model keeps the pair itself.
\<close>

definition edgeKey :: "int \<Rightarrow> int \<Rightarrow> int \<times> int" where
  "edgeKey a b = (if a < b then (a, b) else (b, a))"

text \<open>
  Line 39, \<^verbatim>\<open>while (b === a) b = Math.floor(Math.random() * numVertices)\<close>. The loop need
  not end (it cannot when \<open>numVertices\<close> is 0 or 1): not returning is the value \<open>None\<close>.
\<close>

partial_function (option) resample ::
  "(nat \<Rightarrow> real) \<Rightarrow> int \<Rightarrow> int \<Rightarrow> int \<Rightarrow> nat \<Rightarrow> (int \<times> nat) option" where
  "resample rnd numVertices a b p =
     (if b = a then resample rnd numVertices a (randomIndex rnd p numVertices) (p + 1)
      else Some (b, p))"

text \<open>The loop of lines 36-45.\<close>

partial_function (option) sampleEdges ::
  "(nat \<Rightarrow> real) \<Rightarrow> int \<Rightarrow> int \<Rightarrow> (int \<times> int) set \<Rightarrow> Edge list \<Rightarrow> nat \<Rightarrow> Edge list option" where
  "sampleEdges rnd numVertices numEdges edgeSet es p =
     (if int (length es) < numEdges
      then Option.bind
             (resample rnd numVertices (randomIndex rnd p numVertices)
                (randomIndex rnd (p + 1) numVertices) (p + 2))
             (\<lambda>(b, p').
                if edgeKey (randomIndex rnd p numVertices) b \<notin> edgeSet
                then sampleEdges rnd numVertices numEdges
                       (insert (edgeKey (randomIndex rnd p numVertices) b) edgeSet)
                       (es @ [\<lparr>source = randomIndex rnd p numVertices, target = b\<rparr>]) p'
                else sampleEdges rnd numVertices numEdges edgeSet es p')
      else Some es)"

definition generateRandomGraph :: "(nat \<Rightarrow> real) \<Rightarrow> int \<Rightarrow> int \<Rightarrow> Graph option" where
  "generateRandomGraph rnd numVertices numEdges =
     (case placeVertices rnd numVertices 0 [] 0 of
        (vs, p) \<Rightarrow>
          map_option (\<lambda>es. \<lparr>vertices = vs, edges = es\<rparr>)
            (sampleEdges rnd numVertices numEdges {} [] p))"

section \<open>fruchtermanReingoldStep (lines 50-107)\<close>

subsection \<open>Repulsive force (lines 60-73)\<close>

text \<open>
  The body of the inner loop: what the vertex \<open>u\<close> adds to the accumulators of \<open>v\<close>.
  \<open>dist\<close> is at least 0.01, so neither division is by zero.
\<close>

definition repulse :: "real \<Rightarrow> Vertex \<Rightarrow> Vertex \<Rightarrow> Vertex" where
  "repulse k u v =
     (if id' u \<noteq> id' v
      then (let ddx = x v - x u;
                ddy = y v - y u;
                dist = sqrt (ddx * ddx + ddy * ddy) + 0.01;
                force = (k * k) / dist
            in v\<lparr>dx := dx v + (ddx / dist) * force, dy := dy v + (ddy / dist) * force\<rparr>)
      else v)"

text \<open>
  The outer loop mutates the array in place. \<open>processed\<close> holds the vertices the loop
  has been through (with their new accumulators), the second list those still to come;
  the inner loop runs over the whole array as it stands at that moment.
\<close>

fun repulsionLoop :: "real \<Rightarrow> Vertex list \<Rightarrow> Vertex list \<Rightarrow> Vertex list" where
  "repulsionLoop k processed [] = processed"
| "repulsionLoop k processed (v # rest) =
     (let v0 = v\<lparr>dx := 0, dy := 0\<rparr>
      in repulsionLoop k (processed @ [fold (repulse k) (processed @ v0 # rest) v0]) rest)"

definition repulsion :: "real \<Rightarrow> Vertex list \<Rightarrow> Vertex list" where
  "repulsion k vs = repulsionLoop k [] vs"

subsection \<open>Attractive force (lines 75-88)\<close>

text \<open>
  \<^verbatim>\<open>vertices[i]\<close>: the element at position \<open>i\<close>, or \<^verbatim>\<open>undefined\<close> (here \<open>None\<close>) when \<open>i\<close>
  is not an index of the array.
\<close>

definition lookup :: "Vertex list \<Rightarrow> int \<Rightarrow> Vertex option" where
  "lookup vs i = (if 0 \<le> i \<and> i < int (length vs) then Some (vs ! nat i) else None)"

text \<open>The force \<open>(fx, fy)\<close> of lines 78-83 between the endpoints \<open>v\<close> and \<open>u\<close> of an edge.\<close>

definition edgeForce :: "real \<Rightarrow> Vertex \<Rightarrow> Vertex \<Rightarrow> real \<times> real" where
  "edgeForce k v u =
     (let ddx = x v - x u;
          ddy = y v - y u;
          dist = sqrt (ddx * ddx + ddy * ddy) + 0.01;
          force = (dist * dist) / k
      in ((ddx / dist) * force, (ddy / dist) * force))"

text \<open>
  One iteration of the loop. Reading \<open>v.x\<close> or \<open>u.x\<close> of an \<^verbatim>\<open>undefined\<close> endpoint throws
  before anything is written. The two endpoints may be one object (a self-loop):
  \<open>u\<close> is therefore read again after \<open>v\<close> has been written.
\<close>

definition attractEdge :: "real \<Rightarrow> Edge \<Rightarrow> Vertex list \<Rightarrow> error + Vertex list" where
  "attractEdge k e vs =
     (case (lookup vs (source e), lookup vs (target e)) of
        (Some v, Some u) \<Rightarrow>
          if k = 0 then Inl NonFinite
          else (case edgeForce k v u of
                  (fx, fy) \<Rightarrow>
                    (let vs1 = vs[nat (source e) := v\<lparr>dx := dx v - fx, dy := dy v - fy\<rparr>];
                         u1 = vs1 ! nat (target e)
                     in Inr (vs1[nat (target e) := u1\<lparr>dx := dx u1 + fx, dy := dy u1 + fy\<rparr>])))
      | _ \<Rightarrow> Inl TypeError)"

fun attraction :: "real \<Rightarrow> Edge list \<Rightarrow> Vertex list \<Rightarrow> error + Vertex list" where
  "attraction k [] vs = Inr vs"
| "attraction k (e # es) vs =
     (case attractEdge k e vs of
        Inl err \<Rightarrow> Inl err
      | Inr vs' \<Rightarrow> attraction k es vs')"

subsection \<open>Limiting the displacement and moving (lines 90-106)\<close>

text \<open>
  Lines 94-98: the displacement applied to a vertex whose accumulators are
  \<open>(ddx, ddy)\<close>. The division by \<open>disp\<close> is by zero when \<open>disp = 0\<close> exceeds a negative
  temperature.
\<close>

definition capDisplacement :: "real \<Rightarrow> real \<Rightarrow> real \<Rightarrow> error + (real \<times> real)" where
  "capDisplacement temperature ddx ddy =
     (let disp = sqrt (ddx * ddx + ddy * ddy)
      in if disp > temperature
         then (if disp = 0 then Inl NonFinite
               else Inr ((ddx / disp) * temperature, (ddy / disp) * temperature))
         else Inr (ddx, ddy))"

text \<open>Lines 92-103 for one vertex: the moved vertex, and \<open>disp\<close> as line 94 computed it.\<close>

definition moveVertex :: "real \<Rightarrow> real \<Rightarrow> real \<Rightarrow> Vertex \<Rightarrow> error + (Vertex \<times> real)" where
  "moveVertex width height temperature v =
     (case capDisplacement temperature (dx v) (dy v) of
        Inl err \<Rightarrow> Inl err
      | Inr (ddx, ddy) \<Rightarrow>
          Inr (v\<lparr>x := min width (max 0 (x v + ddx)), y := min height (max 0 (y v + ddy))\<rparr>,
               sqrt (dx v * dx v + dy v * dy v)))"

text \<open>The loop of lines 91-105, with the running maximum \<open>maxMove\<close> of line 104.\<close>

fun updatePositions ::
  "real \<Rightarrow> real \<Rightarrow> real \<Rightarrow> Vertex list \<Rightarrow> real \<Rightarrow> error + (Vertex list \<times> real)" where
  "updatePositions width height temperature [] maxMove = Inr ([], maxMove)"
| "updatePositions width height temperature (v # vs) maxMove =
     (case moveVertex width height temperature v of
        Inl err \<Rightarrow> Inl err
      | Inr (v', disp) \<Rightarrow>
          (case updatePositions width height temperature vs
                  (if disp > maxMove then disp else maxMove) of
             Inl err \<Rightarrow> Inl err
           | Inr (vs', m) \<Rightarrow> Inr (v' # vs', m)))"

definition fruchtermanReingoldStep ::
  "Vertex list \<Rightarrow> Edge list \<Rightarrow> real \<Rightarrow> real \<Rightarrow> real \<Rightarrow> real \<Rightarrow> error + (Vertex list \<times> real)" where
  "fruchtermanReingoldStep vs es width height k temperature =
     (case attraction k es (repulsion k vs) of
        Inl err \<Rightarrow> Inl err
      | Inr vs' \<Rightarrow> updatePositions width height temperature vs' 0)"

section \<open>Cooling (lines 120, 146, 148)\<close>

text \<open>\<^verbatim>\<open>setTemperature(t => t * 0.95)\<close>, from the initial state \<^verbatim>\<open>useState(100)\<close>.\<close>

definition cool :: "real \<Rightarrow> real" where
  "cool t = t * 0.95"

definition temperatureAfter :: "nat \<Rightarrow> real" where
  "temperatureAfter n = (cool ^^ n) 100"

section \<open>Predicates and concrete inputs of the statements\<close>

text \<open>The part of a vertex that the layout step does not compute afresh: its id and position.\<close>

definition core :: "Vertex \<Rightarrow> int \<times> real \<times> real" where
  "core v = (id' v, x v, y v)"

text \<open>Both endpoints of an edge are indices into the vertex array.\<close>

definition endpointsOk :: "Vertex list \<Rightarrow> Edge \<Rightarrow> bool" where
  "endpointsOk vs e =
     (0 \<le> source e \<and> source e < int (length vs) \<and> 0 \<le> target e \<and> target e < int (length vs))"

text \<open>A vertex lies on the canvas.\<close>

definition inBounds :: "real \<Rightarrow> real \<Rightarrow> Vertex \<Rightarrow> bool" where
  "inBounds width height v = (0 \<le> x v \<and> x v \<le> width \<and> 0 \<le> y v \<and> y v \<le> height)"

text \<open>The magnitude \<open>disp\<close> of the accumulated force of a vertex, as line 94 computes it.\<close>

definition forceMagnitude :: "Vertex \<Rightarrow> real" where
  "forceMagnitude v = sqrt (dx v * dx v + dy v * dy v)"

text \<open>The vertex at position \<open>i\<close> has id \<open>i\<close>.\<close>

definition idsAreIndices :: "Vertex list \<Rightarrow> bool" where
  "idsAreIndices vs = (map id' vs = map int [0..<length vs])"

text \<open>
  What one iteration of the attraction loop has to do to the array: both lookups
  succeed and yield the vertices with the ids \<open>source e\<close> and \<open>target e\<close>; the force
  between these two is subtracted from the accumulators of every vertex whose id is
  \<open>source e\<close> and added to those of every vertex whose id is \<open>target e\<close>; nothing else
  changes.
\<close>

definition forcesApplied :: "real \<Rightarrow> Edge \<Rightarrow> Vertex list \<Rightarrow> Vertex list \<Rightarrow> bool" where
  "forcesApplied k e vs vs' =
     (case (lookup vs (source e), lookup vs (target e)) of
        (Some v, Some u) \<Rightarrow>
          id' v = source e \<and> id' u = target e \<and>
          (case edgeForce k v u of
             (fx, fy) \<Rightarrow>
               vs' = map (\<lambda>w. w\<lparr>dx := dx w - (if id' w = source e then fx else 0)
                                         + (if id' w = target e then fx else 0),
                                dy := dy w - (if id' w = source e then fy else 0)
                                         + (if id' w = target e then fy else 0)\<rparr>) vs)
      | _ \<Rightarrow> False)"

text \<open>
  The attraction loop runs to its end, each of its iterations does the above, and
  \<open>final\<close> is the array after the last one.
\<close>

fun attractionAppliedToEndpoints ::
  "real \<Rightarrow> Edge list \<Rightarrow> Vertex list \<Rightarrow> Vertex list \<Rightarrow> bool" where
  "attractionAppliedToEndpoints k [] vs final = (final = vs)"
| "attractionAppliedToEndpoints k (e # es) vs final =
     (case attractEdge k e vs of
        Inr vs' \<Rightarrow> forcesApplied k e vs vs' \<and> attractionAppliedToEndpoints k es vs' final
      | Inl err \<Rightarrow> False)"

text \<open>The key under which the sampling loop records an edge.\<close>

definition keyOf :: "Edge \<Rightarrow> int \<times> int" where
  "keyOf e = edgeKey (source e) (target e)"

text \<open>Endpoints are ids of vertices \<open>0 .. n - 1\<close>, and differ.\<close>

definition edgesValid :: "int \<Rightarrow> Edge list \<Rightarrow> bool" where
  "edgesValid n es =
     (\<forall>e \<in> set es. 0 \<le> source e \<and> source e < n \<and> 0 \<le> target e \<and> target e < n \<and>
                     source e \<noteq> target e)"

text \<open>The invariant of the sampling loop: \<^verbatim>\<open>edgeSet\<close> holds the keys of \<^verbatim>\<open>edges\<close>, once each.\<close>

definition sampleInv :: "int \<Rightarrow> (int \<times> int) set \<Rightarrow> Edge list \<Rightarrow> bool" where
  "sampleInv n edgeSet es = (edgesValid n es \<and> distinct (map keyOf es) \<and> edgeSet = keyOf ` set es)"

text \<open>The unordered pairs of distinct ids below \<open>n\<close>, smaller id first.\<close>

definition pairsBelow :: "int \<Rightarrow> (int \<times> int) set" where
  "pairsBelow n = {(a, b). 0 \<le> a \<and> a < b \<and> b < n}"

text \<open>The Euclidean distance of two vertices (lines 65-67 without the 0.01).\<close>

definition separation :: "Vertex \<Rightarrow> Vertex \<Rightarrow> real" where
  "separation v u = sqrt ((x v - x u) * (x v - x u) + (y v - y u) * (y v - y u))"

text \<open>
  The scenario of the specification: two vertices at (0, 0) and (100, 0) joined by one
  edge, with \<open>k = 50\<close> and temperature 100. \<open>scenarioForce\<close> is the magnitude of the force
  each vertex accumulates there (about 175.02), \<open>scenarioResult\<close> the array after the step.
\<close>

definition scenarioVertices :: "Vertex list" where
  "scenarioVertices =
     [\<lparr>id' = 0, x = 0, y = 0, dx = 0, dy = 0\<rparr>, \<lparr>id' = 1, x = 100, y = 0, dx = 0, dy = 0\<rparr>]"

definition scenarioEdges :: "Edge list" where
  "scenarioEdges = [\<lparr>source = 0, target = 1\<rparr>]"

definition scenarioForce :: real where
  "scenarioForce = 10001 / 50 - 2500000000 / 100020001"

definition scenarioResult :: "Vertex list" where
  "scenarioResult =
     [\<lparr>id' = 0, x = 100, y = 0, dx = scenarioForce, dy = 0\<rparr>,
      \<lparr>id' = 1, x = 0, y = 0, dx = - scenarioForce, dy = 0\<rparr>]"

text \<open>
  The two vertices of the scenario after a step without edges at temperature \<open>-1\<close>.
\<close>

definition repelledVertices :: "Vertex list" where
  "repelledVertices =
     [\<lparr>id' = 0, x = 1, y = 0, dx = - (2500000000 / 100020001), dy = 0\<rparr>,
      \<lparr>id' = 1, x = 99, y = 0, dx = 2500000000 / 100020001, dy = 0\<rparr>]"

text \<open>
  A run of the generator: a sequence of random numbers (all 0 but the sixth) and the graph
  of two vertices and one edge that the generator builds from it.
\<close>

definition exampleRandom :: "nat \<Rightarrow> real" where
  "exampleRandom i = (if i = 5 then 1 / 2 else 0)"

definition exampleGraph :: Graph where
  "exampleGraph =
     \<lparr>vertices = [\<lparr>id' = 0, x = 0, y = 0, dx = 0, dy = 0\<rparr>, \<lparr>id' = 1, x = 0, y = 0, dx = 0, dy = 0\<rparr>],
      edges = [\<lparr>source = 0, target = 1\<rparr>]\<rparr>"

text \<open>
  A second sequence of random numbers, for a call with a negative number of vertices.
\<close>

definition negativeRandom :: "nat \<Rightarrow> real" where
  "negativeRandom i = (if i = 0 then 1 / 2 else 9 / 10)"

declare placeVertices.simps [simp del]

section \<open>The repulsion phase keeps ids and positions and forgets the old accumulators\<close>

lemma repulse_core: "core (repulse k u v) = core v"
  by (simp add: repulse_def core_def Let_def)

lemma fold_repulse_core: "core (fold (repulse k) us v) = core v"
  by (induction us arbitrary: v) (simp_all add: repulse_core)

lemma repulse_cong: "core u = core u' \<Longrightarrow> repulse k u v = repulse k u' v"
  by (simp add: repulse_def core_def)

lemma fold_repulse_cong:
  "map core us = map core us' \<Longrightarrow> fold (repulse k) us v = fold (repulse k) us' v"
proof (induction us arbitrary: us' v)
  case Nil
  then show ?case by simp
next
  case (Cons u us)
  then obtain u' us'' where eq: "us' = u' # us''" by (cases us') auto
  with Cons.prems have "core u = core u'" "map core us = map core us''" by simp_all
  then show ?case using Cons.IH eq by (simp add: repulse_cong [of u u'])
qed

lemma zero_acc_cong: "core v = core v' \<Longrightarrow> v\<lparr>dx := 0, dy := 0\<rparr> = v'\<lparr>dx := 0, dy := 0\<rparr>"
  by (simp add: core_def)

lemma core_zero_acc: "core (v\<lparr>dx := 0, dy := 0\<rparr>) = core v"
  by (simp add: core_def)

lemma repulsionLoop_cong:
  "map core rest = map core rest' \<Longrightarrow> repulsionLoop k processed rest = repulsionLoop k processed rest'"
proof (induction rest arbitrary: rest' processed)
  case Nil
  then show ?case by simp
next
  case (Cons v rest)
  then obtain v' rest'' where eq: "rest' = v' # rest''" by (cases rest') auto
  with Cons.prems have c: "core v = core v'" and m: "map core rest = map core rest''" by simp_all
  define v0 where "v0 = v\<lparr>dx := 0, dy := 0\<rparr>"
  have z: "v'\<lparr>dx := 0, dy := 0\<rparr> = v0" unfolding v0_def using c by (rule zero_acc_cong [symmetric])
  have f: "fold (repulse k) (processed @ v0 # rest) v0 = fold (repulse k) (processed @ v0 # rest'') v0"
    by (rule fold_repulse_cong) (simp add: m)
  have "repulsionLoop k processed (v # rest)
      = repulsionLoop k (processed @ [fold (repulse k) (processed @ v0 # rest) v0]) rest"
    by (simp add: v0_def Let_def)
  also have "\<dots> = repulsionLoop k (processed @ [fold (repulse k) (processed @ v0 # rest'') v0]) rest''"
    unfolding f by (rule Cons.IH [OF m])
  also have "\<dots> = repulsionLoop k processed (v' # rest'')"
    by (simp add: z Let_def)
  finally show ?case unfolding eq .
qed

lemma repulsionLoop_core:
  "map core (repulsionLoop k processed rest) = map core processed @ map core rest"
proof (induction rest arbitrary: processed)
  case Nil
  then show ?case by simp
next
  case (Cons v rest)
  define v0 where "v0 = v\<lparr>dx := 0, dy := 0\<rparr>"
  have "core (fold (repulse k) (processed @ v0 # rest) v0) = core v"
    by (simp only: fold_repulse_core v0_def core_zero_acc)
  moreover have "repulsionLoop k processed (v # rest)
      = repulsionLoop k (processed @ [fold (repulse k) (processed @ v0 # rest) v0]) rest"
    by (simp add: v0_def Let_def)
  ultimately show ?case by (simp add: Cons.IH)
qed

lemma repulsion_core: "map core (repulsion k vs) = map core vs"
  by (simp add: repulsion_def repulsionLoop_core)

lemma repulsion_length: "length (repulsion k vs) = length vs"
  using repulsion_core [of k vs] by (metis length_map)

lemma core_nth:
  assumes "map core vs1 = map core vs" "i < length vs"
  shows "id' (vs1 ! i) = id' (vs ! i) \<and> x (vs1 ! i) = x (vs ! i) \<and> y (vs1 ! i) = y (vs ! i)"
proof -
  have l: "length vs1 = length vs" using assms(1) by (metis length_map)
  have "map core vs1 ! i = map core vs ! i" using assms(1) by simp
  then have "core (vs1 ! i) = core (vs ! i)" using assms(2) l by simp
  then show ?thesis by (simp add: core_def)
qed

section \<open>The attraction phase\<close>

lemma lookup_Some: "lookup vs i = Some v \<Longrightarrow> nat i < length vs \<and> v = vs ! nat i"
  by (auto simp: lookup_def split: if_splits)

lemma attractEdge_Inr_iff:
  "attractEdge k e vs = Inr vs' \<Longrightarrow>
     \<exists>v u fx fy. lookup vs (source e) = Some v \<and> lookup vs (target e) = Some u \<and> k \<noteq> 0 \<and>
        edgeForce k v u = (fx, fy) \<and>
        vs' = (vs[nat (source e) := v\<lparr>dx := dx v - fx, dy := dy v - fy\<rparr>])
                [nat (target e) :=
                   ((vs[nat (source e) := v\<lparr>dx := dx v - fx, dy := dy v - fy\<rparr>]) ! nat (target e))
                   \<lparr>dx := dx ((vs[nat (source e) := v\<lparr>dx := dx v - fx, dy := dy v - fy\<rparr>]) ! nat (target e)) + fx,
                    dy := dy ((vs[nat (source e) := v\<lparr>dx := dx v - fx, dy := dy v - fy\<rparr>]) ! nat (target e)) + fy\<rparr>]"
  unfolding attractEdge_def Let_def
  by (cases "lookup vs (source e)"; cases "lookup vs (target e)"; cases "k = 0";
      cases "edgeForce k (the (lookup vs (source e))) (the (lookup vs (target e)))")
     simp_all

lemma attractEdge_Inr:
  assumes "endpointsOk vs e" "k \<noteq> 0"
  shows "\<exists>vs'. attractEdge k e vs = Inr vs'"
proof -
  from assms(1) have "lookup vs (source e) = Some (vs ! nat (source e))"
    "lookup vs (target e) = Some (vs ! nat (target e))"
    by (simp_all add: endpointsOk_def lookup_def)
  then show ?thesis
    unfolding attractEdge_def Let_def using assms(2)
    by (cases "edgeForce k (vs ! nat (source e)) (vs ! nat (target e))") simp
qed

lemma core_update_acc: "core (v\<lparr>dx := a, dy := b\<rparr>) = core v"
  by (simp add: core_def)

lemma map_core_update:
  "i < length vs \<Longrightarrow> map core (vs[i := (vs ! i)\<lparr>dx := a, dy := b\<rparr>]) = map core vs"
  by (simp add: map_update core_update_acc list_update_same_conv)

lemma attractEdge_core:
  assumes "attractEdge k e vs = Inr vs'"
  shows "length vs' = length vs \<and> map core vs' = map core vs"
proof -
  from attractEdge_Inr_iff [OF assms] obtain v u fx fy where
    lv: "lookup vs (source e) = Some v" and lu: "lookup vs (target e) = Some u" and
    r: "vs' = (vs[nat (source e) := v\<lparr>dx := dx v - fx, dy := dy v - fy\<rparr>])
                [nat (target e) :=
                   ((vs[nat (source e) := v\<lparr>dx := dx v - fx, dy := dy v - fy\<rparr>]) ! nat (target e))
                   \<lparr>dx := dx ((vs[nat (source e) := v\<lparr>dx := dx v - fx, dy := dy v - fy\<rparr>]) ! nat (target e)) + fx,
                    dy := dy ((vs[nat (source e) := v\<lparr>dx := dx v - fx, dy := dy v - fy\<rparr>]) ! nat (target e)) + fy\<rparr>]"
    by blast
  from lookup_Some [OF lv] have s: "nat (source e) < length vs" and v: "v = vs ! nat (source e)"
    by simp_all
  from lookup_Some [OF lu] have t: "nat (target e) < length vs" by simp
  define vs1 where "vs1 = vs[nat (source e) := v\<lparr>dx := dx v - fx, dy := dy v - fy\<rparr>]"
  have l1: "length vs1 = length vs" by (simp add: vs1_def)
  have c1: "map core vs1 = map core vs"
    unfolding vs1_def v by (rule map_core_update [OF s])
  have "map core vs' = map core vs1"
    unfolding r vs1_def [symmetric] by (rule map_core_update) (simp add: l1 t)
  moreover have "length vs' = length vs1"
    unfolding r vs1_def [symmetric] by simp
  ultimately show ?thesis using c1 l1 by simp
qed

lemma attraction_core:
  "attraction k es vs = Inr vs' \<Longrightarrow> length vs' = length vs \<and> map core vs' = map core vs"
proof (induction es arbitrary: vs)
  case Nil
  then show ?case by simp
next
  case (Cons e es)
  from Cons.prems obtain vs1 where
    a: "attractEdge k e vs = Inr vs1" and b: "attraction k es vs1 = Inr vs'"
    by (cases "attractEdge k e vs") simp_all
  from attractEdge_core [OF a] Cons.IH [OF b] show ?case by simp
qed

lemma attraction_Inr:
  "\<forall>e \<in> set es. endpointsOk vs e \<Longrightarrow> k \<noteq> 0 \<Longrightarrow> \<exists>vs'. attraction k es vs = Inr vs'"
proof (induction es arbitrary: vs)
  case Nil
  then show ?case by simp
next
  case (Cons e es)
  from Cons.prems have "endpointsOk vs e" by simp
  from attractEdge_Inr [OF this Cons.prems(2)] obtain vs1 where
    a: "attractEdge k e vs = Inr vs1" by blast
  then have "length vs1 = length vs" using attractEdge_core by blast
  then have "\<forall>e \<in> set es. endpointsOk vs1 e"
    using Cons.prems(1) by (simp add: endpointsOk_def)
  from Cons.IH [OF this Cons.prems(2)] a show ?case by simp
qed

lemma edgeForce_self: "edgeForce k v v = (0, 0)"
  by (simp add: edgeForce_def)

section \<open>Moving the vertices\<close>

lemma capDisplacement_Inr:
  "0 \<le> temperature \<Longrightarrow> \<exists>d. capDisplacement temperature ddx ddy = Inr d"
  by (simp add: capDisplacement_def Let_def)

lemma moveVertex_Inr:
  "0 \<le> temperature \<Longrightarrow> \<exists>v' d. moveVertex width height temperature v = Inr (v', d)"
  using capDisplacement_Inr [of temperature "dx v" "dy v"]
  by (auto simp: moveVertex_def split: sum.splits prod.splits)

lemma updatePositions_Inr:
  "0 \<le> temperature \<Longrightarrow> \<exists>vs' m. updatePositions width height temperature vs m0 = Inr (vs', m)"
proof (induction vs arbitrary: m0)
  case Nil
  then show ?case by simp
next
  case (Cons v vs)
  obtain v' d where m: "moveVertex width height temperature v = Inr (v', d)"
    using moveVertex_Inr [OF Cons.prems] by blast
  obtain vs' m' where
    "updatePositions width height temperature vs (if d > m0 then d else m0) = Inr (vs', m')"
    using Cons.IH [OF Cons.prems] by blast
  with m show ?case by simp
qed

lemma moveVertex_inBounds:
  "moveVertex width height temperature v = Inr (v', d) \<Longrightarrow> 0 \<le> width \<Longrightarrow> 0 \<le> height \<Longrightarrow>
     inBounds width height v'"
  by (auto simp: moveVertex_def inBounds_def split: sum.splits prod.splits)

lemma moveVertex_disp:
  "moveVertex width height temperature v = Inr (v', d) \<Longrightarrow>
     d = sqrt (dx v * dx v + dy v * dy v) \<and> dx v' = dx v \<and> dy v' = dy v \<and> id' v' = id' v"
  by (auto simp: moveVertex_def split: sum.splits prod.splits)

lemma updatePositions_inBounds:
  "updatePositions width height temperature vs m0 = Inr (vs', m) \<Longrightarrow> 0 \<le> width \<Longrightarrow> 0 \<le> height \<Longrightarrow>
     length vs' = length vs \<and> (\<forall>v \<in> set vs'. inBounds width height v)"
proof (induction vs arbitrary: m0 vs')
  case Nil
  then show ?case by simp
next
  case (Cons v vs)
  from Cons.prems(1) obtain v' d vs1 where
    m: "moveVertex width height temperature v = Inr (v', d)" and
    u: "updatePositions width height temperature vs (if d > m0 then d else m0) = Inr (vs1, m)" and
    r: "vs' = v' # vs1"
    by (auto split: sum.splits prod.splits)
  from moveVertex_inBounds [OF m Cons.prems(2,3)] Cons.IH [OF u Cons.prems(2,3)] r
  show ?case by simp
qed

lemma updatePositions_max:
  "updatePositions width height temperature vs m0 = Inr (vs', m) \<Longrightarrow>
     m = Max (insert m0 (forceMagnitude ` set vs)) \<and> map forceMagnitude vs' = map forceMagnitude vs"
proof (induction vs arbitrary: m0 vs')
  case Nil
  then show ?case by simp
next
  case (Cons v vs)
  from Cons.prems(1) obtain v' d vs1 where
    m: "moveVertex width height temperature v = Inr (v', d)" and
    u: "updatePositions width height temperature vs (if d > m0 then d else m0) = Inr (vs1, m)" and
    r: "vs' = v' # vs1"
    by (auto split: sum.splits prod.splits)
  from moveVertex_disp [OF m] have d: "d = forceMagnitude v" and d': "forceMagnitude v' = forceMagnitude v"
    by (simp_all add: forceMagnitude_def)
  have mx: "(if d > m0 then d else m0) = max m0 (forceMagnitude v)"
    using d by (simp add: max_def)
  from Cons.IH [OF u] have
    "m = Max (insert (max m0 (forceMagnitude v)) (forceMagnitude ` set vs))"
    and mp: "map forceMagnitude vs1 = map forceMagnitude vs"
    unfolding mx by simp_all
  moreover have "Max (insert (max m0 (forceMagnitude v)) (forceMagnitude ` set vs))
               = Max (insert m0 (forceMagnitude ` set (v # vs)))"
  proof (cases "vs = []")
    case True
    then show ?thesis by (simp add: max.commute)
  next
    case False
    then show ?thesis by (simp add: max.assoc max.left_commute)
  qed
  ultimately show ?case using r d' by simp
qed

lemma updatePositions_acc:
  "updatePositions width height temperature vs m0 = Inr (vs', m) \<Longrightarrow>
     map dx vs' = map dx vs \<and> map dy vs' = map dy vs"
proof (induction vs arbitrary: m0 vs')
  case Nil
  then show ?case by simp
next
  case (Cons v vs)
  from Cons.prems(1) obtain v' d vs1 where
    m: "moveVertex width height temperature v = Inr (v', d)" and
    u: "updatePositions width height temperature vs (if d > m0 then d else m0) = Inr (vs1, m)" and
    r: "vs' = v' # vs1"
    by (auto split: sum.splits prod.splits)
  from moveVertex_disp [OF m] Cons.IH [OF u] r show ?case by simp
qed

lemma updatePositions_nth:
  "updatePositions width height temperature vs m0 = Inr (vs', m) \<Longrightarrow> i < length vs \<Longrightarrow>
     moveVertex width height temperature (vs ! i) = Inr (vs' ! i, forceMagnitude (vs ! i))"
proof (induction vs arbitrary: m0 vs' i)
  case Nil
  then show ?case by simp
next
  case (Cons v vs)
  from Cons.prems(1) obtain v' d vs1 where
    m: "moveVertex width height temperature v = Inr (v', d)" and
    u: "updatePositions width height temperature vs (if d > m0 then d else m0) = Inr (vs1, m)" and
    r: "vs' = v' # vs1"
    by (auto split: sum.splits prod.splits)
  show ?case
  proof (cases i)
    case 0
    with m r moveVertex_disp [OF m] show ?thesis by (simp add: forceMagnitude_def)
  next
    case (Suc j)
    with Cons.prems(2) have "j < length vs" by simp
    from Cons.IH [OF u this] Suc r show ?thesis by simp
  qed
qed

lemma moveVertex_clamped:
  assumes "moveVertex width height temperature v = Inr (v', d)"
  shows "\<exists>ddx ddy. capDisplacement temperature (dx v) (dy v) = Inr (ddx, ddy) \<and>
           x v' = min width (max 0 (x v + ddx)) \<and> y v' = min height (max 0 (y v + ddy))"
  using assms unfolding moveVertex_def
  by (cases "capDisplacement temperature (dx v) (dy v)") auto

lemma rescaled_magnitude:
  fixes a b t :: real
  assumes "0 \<le> t" "sqrt (a * a + b * b) \<noteq> 0"
  shows "sqrt ((a / sqrt (a * a + b * b) * t) * (a / sqrt (a * a + b * b) * t)
             + (b / sqrt (a * a + b * b) * t) * (b / sqrt (a * a + b * b) * t)) = t"
proof -
  define d where "d = sqrt (a * a + b * b)"
  have dpos: "0 < d" using assms(2) unfolding d_def
    by (metis less_eq_real_def real_sqrt_ge_zero add_nonneg_nonneg zero_le_square)
  have dd: "d * d = a * a + b * b"
    unfolding d_def by (simp add: add_nonneg_nonneg)
  have "(a / d * t) * (a / d * t) + (b / d * t) * (b / d * t) = (a * a + b * b) * (t * t) / (d * d)"
    using dpos by (simp add: field_simps)
  also have "\<dots> = t * t" unfolding dd [symmetric] using dpos by simp
  finally have "sqrt ((a / d * t) * (a / d * t) + (b / d * t) * (b / d * t)) = sqrt (t * t)"
    by simp
  also have "\<dots> = t" using assms(1) by simp
  finally show ?thesis unfolding d_def .
qed

lemma moveVertex_horizontal:
  assumes "dy v = 0" "temperature < \<bar>dx v\<bar>" "0 \<le> temperature"
  shows "moveVertex width height temperature v =
           Inr (v\<lparr>x := min width (max 0 (x v + sgn (dx v) * temperature)),
                  y := min height (max 0 (y v))\<rparr>, \<bar>dx v\<bar>)"
proof -
  have d: "sqrt (dx v * dx v + dy v * dy v) = \<bar>dx v\<bar>"
    using assms(1) by simp
  have n: "\<bar>dx v\<bar> \<noteq> 0" using assms(2,3) by simp
  have "dx v / \<bar>dx v\<bar> = sgn (dx v)"
    by (simp add: sgn_real_def abs_real_def)
  then have "capDisplacement temperature (dx v) (dy v) = Inr (sgn (dx v) * temperature, 0)"
    unfolding capDisplacement_def Let_def d using assms n by simp
  then show ?thesis
    unfolding moveVertex_def d by simp
qed

lemma moveVertex_horizontal_any:
  assumes "dy v = 0" "temperature < \<bar>dx v\<bar>" "dx v \<noteq> 0"
  shows "moveVertex width height temperature v =
           Inr (v\<lparr>x := min width (max 0 (x v + sgn (dx v) * temperature)),
                  y := min height (max 0 (y v))\<rparr>, \<bar>dx v\<bar>)"
proof -
  have d: "sqrt (dx v * dx v + dy v * dy v) = \<bar>dx v\<bar>"
    using assms(1) by simp
  have n: "\<bar>dx v\<bar> \<noteq> 0" using assms(3) by simp
  have "dx v / \<bar>dx v\<bar> = sgn (dx v)"
    by (simp add: sgn_real_def abs_real_def)
  then have "capDisplacement temperature (dx v) (dy v) = Inr (sgn (dx v) * temperature, 0)"
    unfolding capDisplacement_def Let_def d using assms n by simp
  then show ?thesis
    unfolding moveVertex_def d by simp
qed

lemma capDisplacement_horizontal:
  assumes "temperature < \<bar>a\<bar>" "a \<noteq> 0"
  shows "capDisplacement temperature a 0 = Inr (sgn a * temperature, 0)"
proof -
  have d: "sqrt (a * a + 0 * 0) = \<bar>a\<bar>" by simp
  have "a / \<bar>a\<bar> = sgn a" by (simp add: sgn_real_def abs_real_def)
  then show ?thesis
    unfolding capDisplacement_def Let_def d using assms by simp
qed

lemma moveVertex_capped:
  assumes "0 \<le> temperature"
  shows "\<exists>ddx ddy.
           capDisplacement temperature (dx v) (dy v) = Inr (ddx, ddy) \<and>
           moveVertex width height temperature v =
             Inr (v\<lparr>x := min width (max 0 (x v + ddx)), y := min height (max 0 (y v + ddy))\<rparr>,
                  forceMagnitude v) \<and>
           sqrt (ddx * ddx + ddy * ddy) \<le> temperature \<and>
           (forceMagnitude v > temperature \<longrightarrow>
              sqrt (ddx * ddx + ddy * ddy) = temperature \<and>
              ddx = (temperature / forceMagnitude v) * dx v \<and>
              ddy = (temperature / forceMagnitude v) * dy v \<and>
              (0 < temperature \<longrightarrow> 0 < temperature / forceMagnitude v)) \<and>
           (forceMagnitude v \<le> temperature \<longrightarrow> ddx = dx v \<and> ddy = dy v)"
proof (cases "forceMagnitude v > temperature")
  case True
  then have pos: "0 < forceMagnitude v" using assms by simp
  then have nz: "sqrt (dx v * dx v + dy v * dy v) \<noteq> 0"
    unfolding forceMagnitude_def by linarith
  let ?ddx = "dx v / forceMagnitude v * temperature"
  let ?ddy = "dy v / forceMagnitude v * temperature"
  have c: "capDisplacement temperature (dx v) (dy v) = Inr (?ddx, ?ddy)"
    using True nz by (simp add: capDisplacement_def forceMagnitude_def Let_def)
  have m: "sqrt (?ddx * ?ddx + ?ddy * ?ddy) = temperature"
    unfolding forceMagnitude_def by (rule rescaled_magnitude [OF assms nz])
  have "moveVertex width height temperature v =
          Inr (v\<lparr>x := min width (max 0 (x v + ?ddx)), y := min height (max 0 (y v + ?ddy))\<rparr>,
               forceMagnitude v)"
    by (simp add: moveVertex_def c forceMagnitude_def)
  with c m True pos show ?thesis by simp
next
  case False
  then have c: "capDisplacement temperature (dx v) (dy v) = Inr (dx v, dy v)"
    by (simp add: capDisplacement_def forceMagnitude_def Let_def)
  have "moveVertex width height temperature v =
          Inr (v\<lparr>x := min width (max 0 (x v + dx v)), y := min height (max 0 (y v + dy v))\<rparr>,
               forceMagnitude v)"
    by (simp add: moveVertex_def c forceMagnitude_def)
  with c False show ?thesis by (simp add: forceMagnitude_def)
qed

section \<open>The whole step\<close>

lemma step_Inr:
  assumes "\<forall>e \<in> set es. endpointsOk vs e" "k \<noteq> 0" "0 \<le> temperature"
  shows "\<exists>vs' m. fruchtermanReingoldStep vs es width height k temperature = Inr (vs', m)"
proof -
  have "\<forall>e \<in> set es. endpointsOk (repulsion k vs) e"
    using assms(1) by (simp add: endpointsOk_def repulsion_length)
  from attraction_Inr [OF this assms(2)] obtain vs1 where
    a: "attraction k es (repulsion k vs) = Inr vs1" by blast
  from updatePositions_Inr [OF assms(3)] obtain vs' m where
    "updatePositions width height temperature vs1 0 = Inr (vs', m)" by blast
  with a show ?thesis by (simp add: fruchtermanReingoldStep_def)
qed

lemma step_Inr_cases:
  assumes "fruchtermanReingoldStep vs es width height k temperature = Inr (vs', m)"
  obtains vs1 where "attraction k es (repulsion k vs) = Inr vs1"
    "updatePositions width height temperature vs1 0 = Inr (vs', m)"
  using assms unfolding fruchtermanReingoldStep_def
  by (cases "attraction k es (repulsion k vs)") simp_all

lemma step_inBounds:
  assumes "fruchtermanReingoldStep vs es width height k temperature = Inr (vs', m)"
    "0 \<le> width" "0 \<le> height"
  shows "length vs' = length vs \<and> (\<forall>v \<in> set vs'. inBounds width height v)"
proof -
  from assms(1) obtain vs1 where
    a: "attraction k es (repulsion k vs) = Inr vs1" and
    u: "updatePositions width height temperature vs1 0 = Inr (vs', m)"
    by (rule step_Inr_cases)
  from attraction_core [OF a] have "length vs1 = length vs" by (simp add: repulsion_length)
  with updatePositions_inBounds [OF u assms(2,3)] show ?thesis by simp
qed

section \<open>Array accesses of the attraction phase\<close>

lemma idsAreIndices_core: "map core vs' = map core vs \<Longrightarrow> idsAreIndices vs' = idsAreIndices vs"
proof -
  assume a: "map core vs' = map core vs"
  have "map id' vs' = map (fst \<circ> core) vs'" by (simp add: core_def comp_def)
  also have "\<dots> = map (fst \<circ> core) vs" using a by (metis map_map)
  also have "\<dots> = map id' vs" by (simp add: core_def comp_def)
  finally have "map id' vs' = map id' vs" .
  moreover have "length vs' = length vs" using a by (metis length_map)
  ultimately show ?thesis by (simp add: idsAreIndices_def)
qed

lemma lookup_id:
  assumes "idsAreIndices vs" "0 \<le> i" "i < int (length vs)"
  shows "\<exists>v. lookup vs i = Some v \<and> id' v = i"
proof -
  have n: "nat i < length vs" using assms(2,3) by simp
  have "map id' vs ! nat i = map int [0..<length vs] ! nat i"
    using assms(1) by (simp add: idsAreIndices_def)
  then have "id' (vs ! nat i) = i" using n assms(2) by simp
  then show ?thesis using assms(2,3) by (simp add: lookup_def)
qed

lemma idsAreIndices_nth: "idsAreIndices vs \<Longrightarrow> j < length vs \<Longrightarrow> id' (vs ! j) = int j"
proof -
  assume a: "idsAreIndices vs" and j: "j < length vs"
  have "map id' vs ! j = map int [0..<length vs] ! j"
    using a by (simp add: idsAreIndices_def)
  then show ?thesis using j by simp
qed

lemma map_core_ids: "map core ws = map core vs \<Longrightarrow> map id' ws = map id' vs"
proof -
  assume a: "map core ws = map core vs"
  have "map id' ws = map (fst \<circ> core) ws" by (simp add: core_def comp_def)
  also have "\<dots> = map (fst \<circ> core) vs" using a by (metis map_map)
  also have "\<dots> = map id' vs" by (simp add: core_def comp_def)
  finally show ?thesis .
qed

lemma idsAreIndices_ids: "map id' ws = map id' vs \<Longrightarrow> idsAreIndices ws = idsAreIndices vs"
proof -
  assume a: "map id' ws = map id' vs"
  then have "length ws = length vs" by (metis length_map)
  with a show ?thesis by (simp add: idsAreIndices_def)
qed

lemma lookups_by_id:
  assumes "idsAreIndices vs" "endpointsOk vs e" "map id' ws = map id' vs"
  shows "\<exists>v u. lookup ws (source e) = Some v \<and> id' v = source e \<and>
               lookup ws (target e) = Some u \<and> id' u = target e"
proof -
  have l: "length ws = length vs" using assms(3) by (metis length_map)
  have i: "idsAreIndices ws" using assms(1) idsAreIndices_ids [OF assms(3)] by simp
  from assms(2) l have "0 \<le> source e" "source e < int (length ws)"
    "0 \<le> target e" "target e < int (length ws)" by (simp_all add: endpointsOk_def)
  with lookup_id [OF i] show ?thesis by blast
qed

lemma attractEdge_forcesApplied:
  assumes "idsAreIndices vs" "endpointsOk vs e" "k \<noteq> 0"
  shows "\<exists>vs'. attractEdge k e vs = Inr vs' \<and> forcesApplied k e vs vs'"
proof -
  define s where "s = nat (source e)"
  define t where "t = nat (target e)"
  from assms(2) have s: "s < length vs" "source e = int s" and t: "t < length vs" "target e = int t"
    by (simp_all add: endpointsOk_def s_def t_def nat_less_iff)
  define v where "v = vs ! s"
  define u where "u = vs ! t"
  have lv: "lookup vs (source e) = Some v" and lu: "lookup vs (target e) = Some u"
    using s t by (simp_all add: lookup_def v_def u_def)
  have iv: "id' v = source e" and iu: "id' u = target e"
    using idsAreIndices_nth [OF assms(1)] s t by (simp_all add: v_def u_def)
  obtain fx fy where f: "edgeForce k v u = (fx, fy)" by (cases "edgeForce k v u")
  from attractEdge_Inr [OF assms(2,3)] obtain vs' where a: "attractEdge k e vs = Inr vs'" by blast
  from attractEdge_Inr_iff [OF a] lv lu f have
    r: "vs' = (vs[s := v\<lparr>dx := dx v - fx, dy := dy v - fy\<rparr>])
                [t := ((vs[s := v\<lparr>dx := dx v - fx, dy := dy v - fy\<rparr>]) ! t)
                   \<lparr>dx := dx ((vs[s := v\<lparr>dx := dx v - fx, dy := dy v - fy\<rparr>]) ! t) + fx,
                    dy := dy ((vs[s := v\<lparr>dx := dx v - fx, dy := dy v - fy\<rparr>]) ! t) + fy\<rparr>]"
    by (auto simp: s_def t_def)
  let ?g = "\<lambda>w. w\<lparr>dx := dx w - (if id' w = source e then fx else 0)
                                         + (if id' w = target e then fx else 0),
                                dy := dy w - (if id' w = source e then fy else 0)
                                         + (if id' w = target e then fy else 0)\<rparr>"
  have "vs' = map ?g vs"
  proof (rule nth_equalityI)
    show "length vs' = length (map ?g vs)" by (simp add: r)
  next
    fix j assume "j < length vs'"
    then have j: "j < length vs" by (simp add: r)
    have idj: "id' (vs ! j) = int j" using idsAreIndices_nth [OF assms(1) j] .
    show "vs' ! j = map ?g vs ! j"
    proof (cases "s = t")
      case True
      then have "u = v" by (simp add: u_def v_def)
      with f have z: "fx = 0" "fy = 0" by (simp_all add: edgeForce_self)
      show ?thesis
        using j s t True idj by (cases "j = s") (simp_all add: r z v_def)
    next
      case False
      show ?thesis
        using j s t False idj
        by (cases "j = s"; cases "j = t") (simp_all add: r v_def u_def)
    qed
  qed
  with lv lu iv iu f a show ?thesis by (simp add: forcesApplied_def)
qed

lemma attractionAppliedToEndpoints_holds:
  "idsAreIndices vs \<Longrightarrow> \<forall>e \<in> set es. endpointsOk vs e \<Longrightarrow> k \<noteq> 0 \<Longrightarrow>
     \<exists>final. attraction k es vs = Inr final \<and> attractionAppliedToEndpoints k es vs final"
proof (induction es arbitrary: vs)
  case Nil
  then show ?case by simp
next
  case (Cons e es)
  from Cons.prems(2) have ok: "endpointsOk vs e" by simp
  from attractEdge_forcesApplied [OF Cons.prems(1) ok Cons.prems(3)] obtain vs' where
    a: "attractEdge k e vs = Inr vs'" and fa: "forcesApplied k e vs vs'" by blast
  from attractEdge_core [OF a] have l: "length vs' = length vs" and c: "map core vs' = map core vs"
    by simp_all
  have "idsAreIndices vs'" using Cons.prems(1) idsAreIndices_core [OF c] by simp
  moreover have "\<forall>e \<in> set es. endpointsOk vs' e"
    using Cons.prems(2) l by (simp add: endpointsOk_def)
  ultimately obtain final where
    "attraction k es vs' = Inr final" "attractionAppliedToEndpoints k es vs' final"
    using Cons.prems(3) Cons.IH by blast
  with a fa show ?case by simp
qed

section \<open>The scenario, computed\<close>

lemma sqrt_10000: "sqrt 10000 = 100"
  by (rule real_sqrt_unique) simp_all

lemma scenario_repulsion:
  "repulsion 50 scenarioVertices =
     [\<lparr>id' = 0, x = 0, y = 0, dx = - (2500000000 / 100020001), dy = 0\<rparr>,
      \<lparr>id' = 1, x = 100, y = 0, dx = 2500000000 / 100020001, dy = 0\<rparr>]"
  by (simp add: repulsion_def scenarioVertices_def repulse_def Let_def sqrt_10000)

lemma scenarioForce_bounds: "175 < scenarioForce \<and> scenarioForce < 176"
  by (simp add: scenarioForce_def)

lemma scenario_attraction_either:
  assumes "e = \<lparr>source = 0, target = 1\<rparr> \<or> e = \<lparr>source = 1, target = 0\<rparr>"
  shows "attraction 50 [e] (repulsion 50 scenarioVertices) =
     Inr [\<lparr>id' = 0, x = 0, y = 0, dx = scenarioForce, dy = 0\<rparr>,
          \<lparr>id' = 1, x = 100, y = 0, dx = - scenarioForce, dy = 0\<rparr>]"
  using assms unfolding scenario_repulsion
  by (auto simp: attractEdge_def lookup_def edgeForce_def Let_def sqrt_10000 scenarioForce_def)

lemma scenario_step_general:
  assumes "100 \<le> width" "0 \<le> height"
    "e = \<lparr>source = 0, target = 1\<rparr> \<or> e = \<lparr>source = 1, target = 0\<rparr>"
  shows "fruchtermanReingoldStep scenarioVertices [e] width height 50 100 =
     Inr (scenarioResult, scenarioForce)"
proof -
  let ?a = "\<lparr>id' = 0, x = 0, y = 0, dx = scenarioForce, dy = 0\<rparr>"
  let ?b = "\<lparr>id' = 1, x = 100, y = 0, dx = - scenarioForce, dy = 0\<rparr>"
  have f: "175 < scenarioForce" using scenarioForce_bounds by simp
  have ma: "moveVertex width height 100 ?a = Inr (?a\<lparr>x := 100, y := 0\<rparr>, scenarioForce)"
    using f assms(1,2) by (simp add: moveVertex_horizontal)
  have mb: "moveVertex width height 100 ?b = Inr (?b\<lparr>x := 0, y := 0\<rparr>, scenarioForce)"
    using f assms(1,2) by (simp add: moveVertex_horizontal)
  show ?thesis
    unfolding fruchtermanReingoldStep_def scenario_attraction_either [OF assms(3)]
    using f by (simp add: ma mb scenarioResult_def)
qed

lemma scenario_separation: "separation (scenarioResult ! 0) (scenarioResult ! 1) = 100"
  by (simp add: separation_def scenarioResult_def sqrt_10000)

lemma scenario_cap:
  "capDisplacement 100 scenarioForce 0 = Inr (100, 0) \<and>
   capDisplacement 100 (- scenarioForce) 0 = Inr (- 100, 0)"
  using scenarioForce_bounds by (simp add: capDisplacement_def)

lemma scenario_endpointsOk: "\<forall>e \<in> set scenarioEdges. endpointsOk scenarioVertices e"
  by (simp add: scenarioEdges_def scenarioVertices_def endpointsOk_def)

section \<open>Outside the valid inputs\<close>

text \<open>
  The specification takes \<open>k\<close> and the temperature to be positive and every edge to join
  existing vertices. Outside that, the step of the source does not deliver positions on
  the canvas: with \<open>k = 0\<close> and an edge, and with a negative temperature and a vertex on
  which no force acts, it divides by zero and leaves \<^verbatim>\<open>NaN\<close> in a coordinate; with an
  endpoint that is no index of the array it throws. A negative temperature also turns
  the capped displacement around: two vertices that repel each other then move towards
  each other. The statements about the step below therefore carry \<open>k \<noteq> 0\<close>,
  \<open>0 \<le> temperature\<close> and \<open>endpointsOk\<close> as hypotheses.
\<close>

lemma step_zero_k_not_finite:
  "fruchtermanReingoldStep scenarioVertices scenarioEdges 800 600 0 100 = Inl NonFinite"
  by (simp add: fruchtermanReingoldStep_def repulsion_def scenarioVertices_def scenarioEdges_def
      repulse_def attractEdge_def lookup_def Let_def)

lemma step_negative_temperature_not_finite:
  "fruchtermanReingoldStep [\<lparr>id' = 0, x = 5, y = 5, dx = 0, dy = 0\<rparr>] [] 800 600 50 (- 1) =
     Inl NonFinite"
  by (simp add: fruchtermanReingoldStep_def repulsion_def repulse_def moveVertex_def
      capDisplacement_def)

lemma step_dangling_edge_throws:
  "fruchtermanReingoldStep scenarioVertices [\<lparr>source = 0, target = 2\<rparr>] 800 600 50 100 =
     Inl TypeError"
  by (simp add: fruchtermanReingoldStep_def repulsion_def scenarioVertices_def
      repulse_def attractEdge_def lookup_def Let_def)

lemma cap_negative_temperature_reverses:
  "capDisplacement (- 1) 3 4 = Inr (- (3 / 5), - (4 / 5))"
proof -
  have "sqrt 25 = 5" by (rule real_sqrt_unique) simp_all
  then show ?thesis by (simp add: capDisplacement_def)
qed

lemma step_dangling_edge_outside:
  "fruchtermanReingoldStep [\<lparr>id' = 0, x = - 5, y = 0, dx = 0, dy = 0\<rparr>]
     [\<lparr>source = 0, target = 1\<rparr>] 800 600 50 100 = Inl TypeError"
  by (simp add: fruchtermanReingoldStep_def repulsion_def repulse_def attractEdge_def lookup_def)

lemma step_negative_temperature_reverses:
  "fruchtermanReingoldStep scenarioVertices [] 800 600 50 (- 1) =
     Inr (repelledVertices, 2500000000 / 100020001)"
proof -
  let ?a = "\<lparr>id' = 0, x = 0, y = 0, dx = - (2500000000 / 100020001), dy = 0\<rparr>"
  let ?b = "\<lparr>id' = 1, x = 100, y = 0, dx = 2500000000 / 100020001, dy = 0\<rparr>"
  have ma: "moveVertex 800 600 (- 1) ?a = Inr (?a\<lparr>x := 1, y := 0\<rparr>, 2500000000 / 100020001)"
    by (simp add: moveVertex_horizontal_any)
  have mb: "moveVertex 800 600 (- 1) ?b = Inr (?b\<lparr>x := 99, y := 0\<rparr>, 2500000000 / 100020001)"
    by (simp add: moveVertex_horizontal_any)
  show ?thesis
    unfolding fruchtermanReingoldStep_def scenario_repulsion
    by (simp add: ma mb repelledVertices_def)
qed

section \<open>The generator\<close>

lemma placeVertices_ids:
  "map id' (fst (placeVertices rnd n i vs p)) = map id' vs @ [i..n - 1]"
proof (induction rnd n i vs p rule: placeVertices.induct)
  case (1 rnd n i vs p)
  show ?case
  proof (cases "i < n")
    case True
    then have "[i..n - 1] = i # [i + 1..n - 1]" by (simp add: upto_rec1)
    with True "1.IH" show ?thesis by (simp add: placeVertices.simps [of rnd n i])
  next
    case False
    then show ?thesis by (simp add: placeVertices.simps [of rnd n i])
  qed
qed

lemma upto_map_int: "[0..int N - 1] = map int [0..<N]"
proof (induction N)
  case 0
  then show ?case by simp
next
  case (Suc N)
  have "[0..int (Suc N) - 1] = [0..int N - 1] @ [int N]"
    using upto_rec2 [of 0 "int N"] by simp
  with Suc show ?case by simp
qed

lemma placeVertices_idsAreIndices:
  "idsAreIndices (fst (placeVertices rnd n 0 [] p))"
proof -
  have m: "map id' (fst (placeVertices rnd n 0 [] p)) = [0..n - 1]"
    by (simp add: placeVertices_ids)
  show ?thesis
  proof (cases "0 \<le> n")
    case True
    then have "[0..n - 1] = map int [0..<nat n]" using upto_map_int [of "nat n"] by simp
    with m have e: "map id' (fst (placeVertices rnd n 0 [] p)) = map int [0..<nat n]" by simp
    then have "length (fst (placeVertices rnd n 0 [] p)) = nat n"
      by (metis length_map length_upt diff_zero)
    with e show ?thesis by (simp add: idsAreIndices_def)
  next
    case False
    with m have "map id' (fst (placeVertices rnd n 0 [] p)) = []" by simp
    then show ?thesis by (simp add: idsAreIndices_def)
  qed
qed

lemma randomIndex_range:
  assumes "0 \<le> rnd p" "rnd p < 1" "0 < n"
  shows "0 \<le> randomIndex rnd p n \<and> randomIndex rnd p n < n"
proof -
  have "0 \<le> rnd p * of_int n" using assms(1,3) by simp
  moreover have "rnd p * of_int n < 1 * of_int n"
    using assms(2,3) by (intro mult_strict_right_mono) simp_all
  ultimately show ?thesis
    by (simp add: randomIndex_def floor_less_iff)
qed

lemma resample_result:
  assumes "resample rnd n a b p = Some r"
  shows "fst r \<noteq> a \<and> (fst r = b \<or> (\<exists>q. fst r = randomIndex rnd q n))"
proof (rule resample.raw_induct
    [where P = "\<lambda>rnd n a b p r. fst r \<noteq> a \<and> (fst r = b \<or> (\<exists>q. fst r = randomIndex rnd q n))",
      OF _ assms])
  fix resample' :: "(nat \<Rightarrow> real) \<Rightarrow> int \<Rightarrow> int \<Rightarrow> int \<Rightarrow> nat \<Rightarrow> (int \<times> nat) option"
  fix rnd n a b p r
  assume IH: "\<And>rnd n a b p r. resample' rnd n a b p = Some r \<Longrightarrow>
                fst r \<noteq> a \<and> (fst r = b \<or> (\<exists>q. fst r = randomIndex rnd q n))"
    and eq: "(if b = a then resample' rnd n a (randomIndex rnd p n) (p + 1) else Some (b, p)) = Some r"
  show "fst r \<noteq> a \<and> (fst r = b \<or> (\<exists>q. fst r = randomIndex rnd q n))"
  proof (cases "b = a")
    case True
    with eq have "resample' rnd n a (randomIndex rnd p n) (p + 1) = Some r" by simp
    from IH [OF this] show ?thesis by blast
  next
    case False
    with eq show ?thesis by auto
  qed
qed

lemma edgeKey_eq_iff: "edgeKey a b = edgeKey c d \<longleftrightarrow> {a, b} = {c, d}"
  by (auto simp: edgeKey_def doubleton_eq_iff)

lemma sampleInv_snoc:
  assumes "sampleInv n edgeSet es" "0 \<le> a" "a < n" "0 \<le> b" "b < n" "b \<noteq> a"
    "edgeKey a b \<notin> edgeSet"
  shows "sampleInv n (insert (edgeKey a b) edgeSet) (es @ [\<lparr>source = a, target = b\<rparr>])"
  using assms by (auto simp: sampleInv_def edgesValid_def keyOf_def)

lemma sampleInv_empty: "sampleInv n {} []"
  by (simp add: sampleInv_def edgesValid_def)

lemma sampleEdges_invariant:
  assumes "sampleEdges rnd n m edgeSet es p = Some es'"
  shows "(\<forall>i. 0 \<le> rnd i \<and> rnd i < 1) \<longrightarrow> 0 < n \<longrightarrow> sampleInv n edgeSet es \<longrightarrow>
           sampleInv n (keyOf ` set es') es' \<and> \<not> int (length es') < m \<and>
           (int (length es) \<le> m \<longrightarrow> int (length es') = m)"
proof (rule sampleEdges.raw_induct
    [where P = "\<lambda>rnd n m edgeSet es p es'.
        (\<forall>i. 0 \<le> rnd i \<and> rnd i < 1) \<longrightarrow> 0 < n \<longrightarrow> sampleInv n edgeSet es \<longrightarrow>
           sampleInv n (keyOf ` set es') es' \<and> \<not> int (length es') < m \<and>
           (int (length es) \<le> m \<longrightarrow> int (length es') = m)",
      OF _ assms])
  fix sampleEdges' ::
    "(nat \<Rightarrow> real) \<Rightarrow> int \<Rightarrow> int \<Rightarrow> (int \<times> int) set \<Rightarrow> Edge list \<Rightarrow> nat \<Rightarrow> Edge list option"
  fix rnd n m edgeSet es p es'
  assume IH: "\<And>rnd n m edgeSet es p es'. sampleEdges' rnd n m edgeSet es p = Some es' \<Longrightarrow>
        (\<forall>i. 0 \<le> rnd i \<and> rnd i < 1) \<longrightarrow> 0 < n \<longrightarrow> sampleInv n edgeSet es \<longrightarrow>
           sampleInv n (keyOf ` set es') es' \<and> \<not> int (length es') < m \<and>
           (int (length es) \<le> m \<longrightarrow> int (length es') = m)"
  assume eq: "(if int (length es) < m
      then Option.bind
             (resample rnd n (randomIndex rnd p n) (randomIndex rnd (p + 1) n) (p + 2))
             (\<lambda>(b, p').
                if edgeKey (randomIndex rnd p n) b \<notin> edgeSet
                then sampleEdges' rnd n m (insert (edgeKey (randomIndex rnd p n) b) edgeSet)
                       (es @ [\<lparr>source = randomIndex rnd p n, target = b\<rparr>]) p'
                else sampleEdges' rnd n m edgeSet es p')
      else Some es) = Some es'"
  show "(\<forall>i. 0 \<le> rnd i \<and> rnd i < 1) \<longrightarrow> 0 < n \<longrightarrow> sampleInv n edgeSet es \<longrightarrow>
           sampleInv n (keyOf ` set es') es' \<and> \<not> int (length es') < m \<and>
           (int (length es) \<le> m \<longrightarrow> int (length es') = m)"
  proof (intro impI)
    assume rng: "\<forall>i. 0 \<le> rnd i \<and> rnd i < 1" and npos: "0 < n" and inv: "sampleInv n edgeSet es"
    show "sampleInv n (keyOf ` set es') es' \<and> \<not> int (length es') < m \<and>
           (int (length es) \<le> m \<longrightarrow> int (length es') = m)"
    proof (cases "int (length es) < m")
      case False
      with eq have "es' = es" by simp
      with inv False show ?thesis by (auto simp: sampleInv_def)
    next
      case True
      define a where "a = randomIndex rnd p n"
      from True eq obtain b p' where
        rs: "resample rnd n a (randomIndex rnd (p + 1) n) (p + 2) = Some (b, p')" and
        rest: "(if edgeKey a b \<notin> edgeSet
                then sampleEdges' rnd n m (insert (edgeKey a b) edgeSet)
                       (es @ [\<lparr>source = a, target = b\<rparr>]) p'
                else sampleEdges' rnd n m edgeSet es p') = Some es'"
        unfolding a_def by (auto simp: bind_eq_Some_conv)
      have ar: "0 \<le> a \<and> a < n"
        unfolding a_def using rng npos by (simp add: randomIndex_range)
      from resample_result [OF rs] have ba: "b \<noteq> a" and
        "b = randomIndex rnd (p + 1) n \<or> (\<exists>q. b = randomIndex rnd q n)" by simp_all
      then have br: "0 \<le> b \<and> b < n"
        using rng npos randomIndex_range by blast
      show ?thesis
      proof (cases "edgeKey a b \<notin> edgeSet")
        case fresh: True
        with rest have r: "sampleEdges' rnd n m (insert (edgeKey a b) edgeSet)
                       (es @ [\<lparr>source = a, target = b\<rparr>]) p' = Some es'" by simp
        have "sampleInv n (insert (edgeKey a b) edgeSet) (es @ [\<lparr>source = a, target = b\<rparr>])"
          using inv ar br ba fresh by (intro sampleInv_snoc) simp_all
        with IH [OF r] rng npos True show ?thesis by simp
      next
        case False
        with rest have r: "sampleEdges' rnd n m edgeSet es p' = Some es'" by simp
        from IH [OF r] rng npos inv True show ?thesis by simp
      qed
    qed
  qed
qed

subsection \<open>At most \<open>n (n - 1) / 2\<close> edges fit\<close>

lemma pairsBelow_Suc:
  "pairsBelow (int (Suc N)) = pairsBelow (int N) \<union> (\<lambda>a. (a, int N)) ` {0..<int N}"
  by (auto simp: pairsBelow_def)

lemma pairsBelow_card: "finite (pairsBelow (int N)) \<and> 2 * card (pairsBelow (int N)) = N * (N - 1)"
proof (induction N)
  case 0
  have "pairsBelow (int 0) = {}" by (auto simp: pairsBelow_def)
  then show ?case by simp
next
  case (Suc N)
  let ?new = "(\<lambda>a. (a, int N)) ` {0..<int N}"
  have f: "finite ?new" by simp
  have "inj_on (\<lambda>a. (a, int N)) {0..<int N}" by (simp add: inj_on_def)
  then have c: "card ?new = N" by (simp add: card_image)
  have d: "pairsBelow (int N) \<inter> ?new = {}" by (auto simp: pairsBelow_def)
  from Suc have fin: "finite (pairsBelow (int N))" and
    cd: "2 * card (pairsBelow (int N)) = N * (N - 1)" by simp_all
  have "card (pairsBelow (int (Suc N))) = card (pairsBelow (int N)) + N"
    unfolding pairsBelow_Suc using fin f d c by (simp add: card_Un_disjoint)
  then have "2 * card (pairsBelow (int (Suc N))) = N * (N - 1) + 2 * N"
    using cd by simp
  also have "\<dots> = Suc N * (Suc N - 1)"
    by (cases N) simp_all
  finally show ?case using fin f unfolding pairsBelow_Suc by simp
qed

lemma keyOf_pairsBelow:
  "edgesValid n es \<Longrightarrow> keyOf ` set es \<subseteq> pairsBelow n"
  by (auto simp: edgesValid_def keyOf_def edgeKey_def pairsBelow_def)

lemma valid_edges_count:
  assumes "0 \<le> n" "edgesValid n es" "distinct (map keyOf es)"
  shows "int (length es) \<le> n * (n - 1) div 2"
proof -
  define N where "N = nat n"
  have n: "n = int N" using assms(1) by (simp add: N_def)
  from pairsBelow_card [of N] have fin: "finite (pairsBelow n)" and
    cd: "2 * card (pairsBelow n) = N * (N - 1)" unfolding n by simp_all
  have "length es = card (keyOf ` set es)"
    using assms(3) by (metis distinct_card length_map set_map)
  also have "\<dots> \<le> card (pairsBelow n)"
    using keyOf_pairsBelow [OF assms(2)] fin by (rule card_mono [rotated])
  finally have "2 * length es \<le> N * (N - 1)" using cd by simp
  then have "2 * int (length es) \<le> int (N * (N - 1))" by linarith
  also have "int (N * (N - 1)) = n * (n - 1)"
    unfolding n by (cases N) (simp_all add: algebra_simps)
  finally show ?thesis by simp
qed

subsection \<open>Results of the generator\<close>

lemma sampleEdges_no_edges:
  "numEdges \<le> 0 \<Longrightarrow> sampleEdges rnd numVertices numEdges {} [] p = Some []"
  by (subst sampleEdges.simps) simp

lemma sampleEdges_no_vertices:
  assumes "0 < numEdges"
  shows "sampleEdges rnd 0 numEdges {} [] p = None"
proof (rule ccontr)
  assume "sampleEdges rnd 0 numEdges {} [] p \<noteq> None"
  then obtain es' where "sampleEdges rnd 0 numEdges {} [] p = Some es'" by blast
  then obtain b p' where
    "resample rnd 0 (randomIndex rnd p 0) (randomIndex rnd (p + 1) 0) (p + 2) = Some (b, p')"
    using assms by (subst (asm) sampleEdges.simps) (auto simp: bind_eq_Some_conv)
  from resample_result [OF this] show False by (simp add: randomIndex_def)
qed

lemma sampleEdges_infeasible:
  assumes "\<forall>i. 0 \<le> rnd i \<and> rnd i < 1" "0 \<le> numVertices"
    "numVertices * (numVertices - 1) div 2 < numEdges"
  shows "sampleEdges rnd numVertices numEdges {} [] p = None"
proof (cases "numVertices = 0")
  case True
  with assms(3) have "0 < numEdges" by simp
  then show ?thesis unfolding True by (rule sampleEdges_no_vertices)
next
  case False
  with assms(2) have pos: "0 < numVertices" by simp
  show ?thesis
  proof (rule ccontr)
    assume "sampleEdges rnd numVertices numEdges {} [] p \<noteq> None"
    then obtain es' where s: "sampleEdges rnd numVertices numEdges {} [] p = Some es'" by blast
    from sampleEdges_invariant [OF s] assms(1) pos sampleInv_empty have
      inv: "sampleInv numVertices (keyOf ` set es') es'" and
      len: "\<not> int (length es') < numEdges" by simp_all
    from inv have "edgesValid numVertices es'" "distinct (map keyOf es')"
      by (simp_all add: sampleInv_def)
    from valid_edges_count [OF assms(2) this] len assms(3) show False by simp
  qed
qed

lemma generate_Some:
  assumes "generateRandomGraph rnd numVertices numEdges = Some g"
  obtains p where "vertices g = fst (placeVertices rnd numVertices 0 [] 0)"
    "sampleEdges rnd numVertices numEdges {} [] p = Some (edges g)"
  using assms unfolding generateRandomGraph_def
  by (cases "placeVertices rnd numVertices 0 [] 0") auto

lemma distinct_keys_pairs:
  "distinct (map keyOf es) \<Longrightarrow> distinct (map (\<lambda>e. {source e, target e}) es)"
proof (induction es)
  case Nil
  then show ?case by simp
next
  case (Cons e es)
  have "{source e, target e} \<notin> (\<lambda>e. {source e, target e}) ` set es"
  proof
    assume "{source e, target e} \<in> (\<lambda>e. {source e, target e}) ` set es"
    then obtain e' where "e' \<in> set es" "{source e, target e} = {source e', target e'}" by blast
    then have "keyOf e \<in> keyOf ` set es"
      unfolding keyOf_def using edgeKey_eq_iff by blast
    with Cons.prems show False by simp
  qed
  with Cons show ?case by simp
qed

lemma generate_wellformed:
  assumes "\<forall>i. 0 \<le> rnd i \<and> rnd i < 1" "0 \<le> numVertices" "0 \<le> numEdges"
    "numEdges \<le> numVertices * (numVertices - 1) div 2"
    "generateRandomGraph rnd numVertices numEdges = Some g"
  shows "map id' (vertices g) = [0..numVertices - 1] \<and> idsAreIndices (vertices g) \<and>
         length (vertices g) = nat numVertices \<and>
         edgesValid numVertices (edges g) \<and> distinct (map keyOf (edges g)) \<and>
         int (length (edges g)) = numEdges"
proof -
  from assms(5) obtain p where
    v: "vertices g = fst (placeVertices rnd numVertices 0 [] 0)" and
    s: "sampleEdges rnd numVertices numEdges {} [] p = Some (edges g)"
    by (rule generate_Some)
  have ids: "map id' (vertices g) = [0..numVertices - 1]"
    unfolding v by (simp add: placeVertices_ids)
  have ii: "idsAreIndices (vertices g)"
    unfolding v by (rule placeVertices_idsAreIndices)
  have "length (map id' (vertices g)) = nat numVertices"
    unfolding ids using assms(2) by simp
  then have len: "length (vertices g) = nat numVertices" by simp
  have "edgesValid numVertices (edges g) \<and> distinct (map keyOf (edges g)) \<and>
         int (length (edges g)) = numEdges"
  proof (cases "numVertices = 0")
    case True
    with assms(3,4) have "numEdges \<le> 0" by simp
    from sampleEdges_no_edges [OF this] s have "edges g = []" by simp
    with assms(3) \<open>numEdges \<le> 0\<close> show ?thesis by (simp add: edgesValid_def)
  next
    case False
    with assms(2) have pos: "0 < numVertices" by simp
    from sampleEdges_invariant [OF s] assms(1,3) pos sampleInv_empty
    show ?thesis by (simp add: sampleInv_def)
  qed
  with ids ii len show ?thesis by simp
qed

lemma generate_endpointsOk:
  assumes "0 \<le> numVertices" "length vs = nat numVertices" "edgesValid numVertices es"
  shows "\<forall>e \<in> set es. endpointsOk vs e"
  using assms by (simp add: edgesValid_def endpointsOk_def)

lemma generate_conditions:
  assumes "\<forall>i. 0 \<le> rnd i \<and> rnd i < 1" "0 \<le> numVertices \<or> numEdges \<le> 0"
    "generateRandomGraph rnd numVertices numEdges = Some g"
  shows "idsAreIndices (vertices g) \<and> (\<forall>e \<in> set (edges g). endpointsOk (vertices g) e)"
proof -
  from assms(3) obtain p where
    v: "vertices g = fst (placeVertices rnd numVertices 0 [] 0)" and
    s: "sampleEdges rnd numVertices numEdges {} [] p = Some (edges g)"
    by (rule generate_Some)
  have ii: "idsAreIndices (vertices g)"
    unfolding v by (rule placeVertices_idsAreIndices)
  have "\<forall>e \<in> set (edges g). endpointsOk (vertices g) e"
  proof (cases "numEdges \<le> 0")
    case True
    from sampleEdges_no_edges [OF this] s have "edges g = []" by simp
    then show ?thesis by simp
  next
    case False
    with assms(2) have n: "0 \<le> numVertices" and m: "0 < numEdges" by simp_all
    have "numVertices \<noteq> 0"
    proof
      assume "numVertices = 0"
      with sampleEdges_no_vertices [OF m] s show False by simp
    qed
    with n have pos: "0 < numVertices" by simp
    from sampleEdges_invariant [OF s] assms(1) pos sampleInv_empty
    have ev: "edgesValid numVertices (edges g)" by (simp add: sampleInv_def)
    have "map id' (vertices g) = [0..numVertices - 1]"
      unfolding v by (simp add: placeVertices_ids)
    then have "length (map id' (vertices g)) = nat numVertices" using n by simp
    then have "length (vertices g) = nat numVertices" by simp
    from generate_endpointsOk [OF n this ev] show ?thesis .
  qed
  with ii show ?thesis by simp
qed

subsection \<open>The example run\<close>

lemma exampleRandom_range: "\<forall>i. 0 \<le> exampleRandom i \<and> exampleRandom i < 1"
  by (simp add: exampleRandom_def)

lemma example_placeVertices:
  "placeVertices exampleRandom 2 0 [] 0 = (vertices exampleGraph, 4)"
  by (simp add: placeVertices.simps exampleRandom_def exampleGraph_def)

lemma example_resample: "resample exampleRandom 2 0 1 6 = Some (1, 6)"
  by (subst resample.simps) simp

lemma example_sampleEdges_1: "sampleEdges exampleRandom 2 1 {} [] 4 = Some (edges exampleGraph)"
proof -
  have a: "randomIndex exampleRandom 4 2 = 0" by (simp add: randomIndex_def exampleRandom_def)
  have b: "randomIndex exampleRandom 5 2 = 1" by (simp add: randomIndex_def exampleRandom_def)
  have "sampleEdges exampleRandom 2 1 {(0, 1)} [\<lparr>source = 0, target = 1\<rparr>] 6
          = Some [\<lparr>source = 0, target = 1\<rparr>]"
    by (subst sampleEdges.simps) simp
  then show ?thesis
    by (subst sampleEdges.simps) (simp add: a b example_resample edgeKey_def exampleGraph_def)
qed

lemma example_generate: "generateRandomGraph exampleRandom 2 1 = Some exampleGraph"
  by (simp add: generateRandomGraph_def example_placeVertices example_sampleEdges_1 exampleGraph_def)

lemma negative_generate:
  "generateRandomGraph negativeRandom (- 3) 1 =
     Some \<lparr>vertices = [], edges = [\<lparr>source = - 2, target = - 3\<rparr>]\<rparr>"
proof -
  have p: "placeVertices negativeRandom (- 3) 0 [] 0 = ([], 0)"
    by (simp add: placeVertices.simps)
  have a: "randomIndex negativeRandom 0 (- 3) = - 2"
    by (simp add: randomIndex_def negativeRandom_def)
  have b: "randomIndex negativeRandom 1 (- 3) = - 3"
    by (simp add: randomIndex_def negativeRandom_def)
  have r: "resample negativeRandom (- 3) (- 2) (- 3) 2 = Some (- 3, 2)"
    by (subst resample.simps) simp
  have "sampleEdges negativeRandom (- 3) 1 {(- 3, - 2)} [\<lparr>source = - 2, target = - 3\<rparr>] 2
          = Some [\<lparr>source = - 2, target = - 3\<rparr>]"
    by (subst sampleEdges.simps) simp
  moreover have "randomIndex negativeRandom (Suc 0) (- 3) = - 3"
    using b by simp
  moreover have "resample negativeRandom (- 3) (- 2) (- 3) (Suc (Suc 0)) = Some (- 3, 2)"
    using r by (simp add: numeral_2_eq_2)
  ultimately have
    "sampleEdges negativeRandom (- 3) 1 {} [] 0 = Some [\<lparr>source = - 2, target = - 3\<rparr>]"
    by (subst sampleEdges.simps) (simp add: a edgeKey_def)
  with p show ?thesis by (simp add: generateRandomGraph_def)
qed

lemma negative_graph_throws:
  "fruchtermanReingoldStep [] [\<lparr>source = - 2, target = - 3\<rparr>] 800 600 50 100 = Inl TypeError"
  by (simp add: fruchtermanReingoldStep_def repulsion_def attractEdge_def lookup_def)

section \<open>Cooling\<close>

lemma temperatureAfter_power: "temperatureAfter n = 100 * (19 / 20) ^ n"
  unfolding temperatureAfter_def by (induction n) (simp_all add: cool_def)

lemma temperatureAfter_90: "temperatureAfter 90 < 1"
  unfolding temperatureAfter_power by (simp add: power_divide)

lemma temperatureAfter_89: "1 \<le> temperatureAfter 89"
  unfolding temperatureAfter_power by (simp add: power_divide)

lemma temperatureAfter_antimono: "n \<le> m \<Longrightarrow> temperatureAfter m \<le> temperatureAfter n"
  unfolding temperatureAfter_power by (simp add: power_decreasing)

section \<open>The claims\<close>

subsection \<open>C1\<close>

text \<open>
  C1 as stated fails: with a negative number of edges the generator signals nothing and
  returns a graph. Here it returns the graph of two vertices and no edges.
\<close>

theorem generate_negative_edges_counterexample:
  "generateRandomGraph exampleRandom 2 (- 1) =
     Some \<lparr>vertices = [\<lparr>id' = 0, x = 0, y = 0, dx = 0, dy = 0\<rparr>,
                       \<lparr>id' = 1, x = 0, y = 0, dx = 0, dy = 0\<rparr>],
           edges = []\<rparr>"
  using sampleEdges_no_edges [of "- 1" exampleRandom 2 4]
  by (simp add: generateRandomGraph_def example_placeVertices exampleGraph_def)

text \<open>
  C1, amended. The generator has no error result and checks no parameter. Whenever
  \<open>numEdges \<le> 0\<close> (so also for a negative \<open>numEdges\<close>, and for a negative \<open>numVertices\<close>
  with such a \<open>numEdges\<close>) it never enters the sampling loop and returns the vertices
  \<open>0 .. numVertices - 1\<close> (none when \<open>numVertices \<le> 0\<close>) with no edge. Whenever
  \<open>numVertices \<ge> 0\<close> and \<open>numEdges > numVertices (numVertices - 1) / 2\<close> it returns no graph,
  not even a partial one, because the sampling loop never ends, whatever numbers in
  \<open>[0, 1)\<close> \<^verbatim>\<open>Math.random\<close> delivers.
\<close>

theorem generate_without_parameter_check:
  "(numEdges \<le> 0 \<longrightarrow>
      generateRandomGraph rnd numVertices numEdges =
        Some \<lparr>vertices = fst (placeVertices rnd numVertices 0 [] 0), edges = []\<rparr>) \<and>
   map id' (fst (placeVertices rnd numVertices 0 [] 0)) = [0..numVertices - 1] \<and>
   ((\<forall>i. 0 \<le> rnd i \<and> rnd i < 1) \<and> 0 \<le> numVertices \<and>
    numVertices * (numVertices - 1) div 2 < numEdges \<longrightarrow>
      generateRandomGraph rnd numVertices numEdges = None)"
proof (intro conjI impI)
  assume "numEdges \<le> 0"
  then show "generateRandomGraph rnd numVertices numEdges =
        Some \<lparr>vertices = fst (placeVertices rnd numVertices 0 [] 0), edges = []\<rparr>"
    unfolding generateRandomGraph_def
    by (cases "placeVertices rnd numVertices 0 [] 0") (simp add: sampleEdges_no_edges)
next
  show "map id' (fst (placeVertices rnd numVertices 0 [] 0)) = [0..numVertices - 1]"
    by (simp add: placeVertices_ids)
next
  assume "(\<forall>i. 0 \<le> rnd i \<and> rnd i < 1) \<and> 0 \<le> numVertices \<and>
    numVertices * (numVertices - 1) div 2 < numEdges"
  then have "\<And>p. sampleEdges rnd numVertices numEdges {} [] p = None"
    by (intro sampleEdges_infeasible) simp_all
  then show "generateRandomGraph rnd numVertices numEdges = None"
    unfolding generateRandomGraph_def
    by (cases "placeVertices rnd numVertices 0 [] 0") simp
qed

theorem generate_without_parameter_check_witness:
  "generateRandomGraph exampleRandom 2 (- 1) =
     Some \<lparr>vertices = vertices exampleGraph, edges = []\<rparr> \<and>
   generateRandomGraph exampleRandom 2 2 = None"
  using generate_without_parameter_check [of "- 1" exampleRandom 2]
    generate_without_parameter_check [of 2 exampleRandom 2]
  by (simp add: example_placeVertices exampleRandom_range)

subsection \<open>C2\<close>

text \<open>
  C2 as stated fails: it lets \<open>k\<close>, the temperature and the graph be arbitrary. With
  \<open>k = 0\<close> and an edge, and with temperature \<open>-1\<close> and a single vertex, the step of the
  source divides by zero and leaves \<^verbatim>\<open>NaN\<close> in a coordinate of a vertex; with an edge
  whose target is no index of the array it throws before it moves anything, and the
  vertex stays at \<open>x = -5\<close>, off the canvas.
\<close>

theorem step_bounded_positions_counterexample:
  "fruchtermanReingoldStep scenarioVertices scenarioEdges 800 600 0 100 = Inl NonFinite \<and>
   fruchtermanReingoldStep [\<lparr>id' = 0, x = 5, y = 5, dx = 0, dy = 0\<rparr>] [] 800 600 50 (- 1) =
     Inl NonFinite \<and>
   fruchtermanReingoldStep [\<lparr>id' = 0, x = - 5, y = 0, dx = 0, dy = 0\<rparr>]
     [\<lparr>source = 0, target = 1\<rparr>] 800 600 50 100 = Inl TypeError"
  using step_zero_k_not_finite step_negative_temperature_not_finite step_dangling_edge_outside
  by simp

text \<open>
  C2, amended. For every vertex array and edge list whose endpoints index the array, every
  \<open>width > 0\<close>, \<open>height > 0\<close>, \<open>k \<noteq> 0\<close> and \<open>temperature \<ge> 0\<close>, the step returns, and
  afterwards every vertex lies in \<open>[0, width] \<times> [0, height]\<close>. Each new coordinate is
  the old one plus the (capped) displacement, clamped: \<open>min width (max 0 _)\<close> and
  \<open>min height (max 0 _)\<close>, so a vertex pushed past an edge of the canvas stays on that
  edge.
\<close>

theorem step_bounded_positions:
  assumes "0 < width" "0 < height" "k \<noteq> 0" "0 \<le> temperature"
    "\<forall>e \<in> set es. endpointsOk vs e"
  shows "\<exists>vs1 vs' m.
           attraction k es (repulsion k vs) = Inr vs1 \<and>
           fruchtermanReingoldStep vs es width height k temperature = Inr (vs', m) \<and>
           length vs' = length vs \<and>
           (\<forall>v \<in> set vs'. 0 \<le> x v \<and> x v \<le> width \<and> 0 \<le> y v \<and> y v \<le> height) \<and>
           (\<forall>i < length vs. \<exists>ddx ddy.
              capDisplacement temperature (dx (vs1 ! i)) (dy (vs1 ! i)) = Inr (ddx, ddy) \<and>
              x (vs' ! i) = min width (max 0 (x (vs ! i) + ddx)) \<and>
              y (vs' ! i) = min height (max 0 (y (vs ! i) + ddy)))"
proof -
  from step_Inr [OF assms(5,3,4)] obtain vs' m where
    s: "fruchtermanReingoldStep vs es width height k temperature = Inr (vs', m)" by blast
  then obtain vs1 where
    a: "attraction k es (repulsion k vs) = Inr vs1" and
    u: "updatePositions width height temperature vs1 0 = Inr (vs', m)"
    by (rule step_Inr_cases)
  from assms(1,2) have "0 \<le> width" "0 \<le> height" by simp_all
  from step_inBounds [OF s this] have
    len: "length vs' = length vs" and
    bnd: "\<forall>v \<in> set vs'. 0 \<le> x v \<and> x v \<le> width \<and> 0 \<le> y v \<and> y v \<le> height"
    by (simp_all add: inBounds_def)
  from attraction_core [OF a] have
    l1: "length vs1 = length vs" and c1: "map core vs1 = map core vs"
    by (simp_all add: repulsion_length repulsion_core)
  have "\<forall>i < length vs. \<exists>ddx ddy.
              capDisplacement temperature (dx (vs1 ! i)) (dy (vs1 ! i)) = Inr (ddx, ddy) \<and>
              x (vs' ! i) = min width (max 0 (x (vs ! i) + ddx)) \<and>
              y (vs' ! i) = min height (max 0 (y (vs ! i) + ddy))"
  proof (intro allI impI)
    fix i assume i: "i < length vs"
    then have "i < length vs1" using l1 by simp
    from moveVertex_clamped [OF updatePositions_nth [OF u this]] core_nth [OF c1 i]
    show "\<exists>ddx ddy.
              capDisplacement temperature (dx (vs1 ! i)) (dy (vs1 ! i)) = Inr (ddx, ddy) \<and>
              x (vs' ! i) = min width (max 0 (x (vs ! i) + ddx)) \<and>
              y (vs' ! i) = min height (max 0 (y (vs ! i) + ddy))"
      by simp
  qed
  with a s len bnd show ?thesis by blast
qed

theorem step_bounded_positions_witness:
  "\<exists>vs1 vs' m.
      attraction 50 scenarioEdges (repulsion 50 scenarioVertices) = Inr vs1 \<and>
      fruchtermanReingoldStep scenarioVertices scenarioEdges 800 600 50 100 = Inr (vs', m) \<and>
      length vs' = length scenarioVertices \<and>
      (\<forall>v \<in> set vs'. 0 \<le> x v \<and> x v \<le> 800 \<and> 0 \<le> y v \<and> y v \<le> 600) \<and>
      (\<forall>i < length scenarioVertices. \<exists>ddx ddy.
         capDisplacement 100 (dx (vs1 ! i)) (dy (vs1 ! i)) = Inr (ddx, ddy) \<and>
         x (vs' ! i) = min 800 (max 0 (x (scenarioVertices ! i) + ddx)) \<and>
         y (vs' ! i) = min 600 (max 0 (y (scenarioVertices ! i) + ddy)))"
  using step_bounded_positions [of 800 600 50 100 scenarioEdges scenarioVertices]
    scenario_endpointsOk by simp

subsection \<open>C3\<close>

text \<open>
  C3. Under the feasibility precondition \<open>0 \<le> numVertices\<close>,
  \<open>0 \<le> numEdges \<le> numVertices (numVertices - 1) / 2\<close>, and for random numbers in
  \<open>[0, 1)\<close>, every graph the generator returns has the vertex ids \<open>0 .. numVertices - 1\<close>
  in this order, every edge joins two distinct ids in \<open>[0, numVertices)\<close>, no two edges
  are the same unordered pair, and there are \<open>numEdges\<close> edges.
\<close>

theorem generated_graph_valid:
  assumes "\<forall>i. 0 \<le> rnd i \<and> rnd i < 1" "0 \<le> numVertices" "0 \<le> numEdges"
    "numEdges \<le> numVertices * (numVertices - 1) div 2"
    "generateRandomGraph rnd numVertices numEdges = Some g"
  shows "map id' (vertices g) = [0..numVertices - 1] \<and>
         (\<forall>e \<in> set (edges g).
            source e \<noteq> target e \<and> 0 \<le> source e \<and> source e < numVertices \<and>
            0 \<le> target e \<and> target e < numVertices) \<and>
         distinct (map (\<lambda>e. {source e, target e}) (edges g)) \<and>
         int (length (edges g)) = numEdges"
proof -
  from generate_wellformed [OF assms] have
    ids: "map id' (vertices g) = [0..numVertices - 1]" and
    valid: "edgesValid numVertices (edges g)" and
    keys: "distinct (map keyOf (edges g))" and
    len: "int (length (edges g)) = numEdges" by simp_all
  from valid have "\<forall>e \<in> set (edges g).
            source e \<noteq> target e \<and> 0 \<le> source e \<and> source e < numVertices \<and>
            0 \<le> target e \<and> target e < numVertices"
    by (simp add: edgesValid_def)
  with ids len distinct_keys_pairs [OF keys] show ?thesis by simp
qed

theorem generated_graph_valid_witness:
  "generateRandomGraph exampleRandom 2 1 = Some exampleGraph \<and>
   map id' (vertices exampleGraph) = [0, 1] \<and>
   distinct (map (\<lambda>e. {source e, target e}) (edges exampleGraph)) \<and>
   int (length (edges exampleGraph)) = 1"
  using generated_graph_valid [OF exampleRandom_range _ _ _ example_generate]
  by (simp add: example_generate upto_rec1)

subsection \<open>C4\<close>

text \<open>
  C4 as stated fails: on the 800 by 600 canvas of the source, one step of the scenario
  moves each vertex by exactly 100 towards the other, so the two exchange their places
  and their distance is 100 again, not less.
\<close>

theorem scenario_separation_counterexample:
  "fruchtermanReingoldStep scenarioVertices scenarioEdges 800 600 50 100 =
     Inr (scenarioResult, scenarioForce) \<and>
   \<not> separation (scenarioResult ! 0) (scenarioResult ! 1) < 100"
  using scenario_step_general [of 800 600 "\<lparr>source = 0, target = 1\<rparr>"] scenario_separation
  by (simp add: scenarioEdges_def)

text \<open>
  C4, amended. In the scenario, on every canvas at least 100 wide and for either
  orientation of the edge, one step puts the first vertex at (100, 0) and the second at
  (0, 0): their distance is exactly 100 as before, and the displacement applied to each
  is \<open>(100, 0)\<close> and \<open>(-100, 0)\<close>, of magnitude exactly 100, the temperature.
\<close>

theorem scenario_vertices_exchange:
  assumes "100 \<le> width" "0 \<le> height"
    "e = \<lparr>source = 0, target = 1\<rparr> \<or> e = \<lparr>source = 1, target = 0\<rparr>"
  shows "fruchtermanReingoldStep scenarioVertices [e] width height 50 100 =
           Inr (scenarioResult, scenarioForce) \<and>
         map x scenarioResult = [100, 0] \<and> map y scenarioResult = [0, 0] \<and>
         separation (scenarioResult ! 0) (scenarioResult ! 1) = 100 \<and>
         capDisplacement 100 (dx (scenarioResult ! 0)) (dy (scenarioResult ! 0)) = Inr (100, 0) \<and>
         capDisplacement 100 (dx (scenarioResult ! 1)) (dy (scenarioResult ! 1)) = Inr (- 100, 0)"
  using scenario_step_general [OF assms] scenario_separation scenario_cap
  by (simp add: scenarioResult_def)

theorem scenario_vertices_exchange_witness:
  "fruchtermanReingoldStep scenarioVertices scenarioEdges 800 600 50 100 =
     Inr (scenarioResult, scenarioForce) \<and>
   separation (scenarioResult ! 0) (scenarioResult ! 1) = 100"
  using scenario_vertices_exchange [of 800 600 "\<lparr>source = 0, target = 1\<rparr>"]
  by (simp add: scenarioEdges_def)

subsection \<open>C5\<close>

text \<open>
  C5 as stated fails: it speaks of every call. In a step at temperature \<open>-1\<close> on the two
  vertices of the scenario without an edge, the first vertex accumulates the force
  \<open>(-24.995, 0)\<close>, of magnitude above the temperature, and is moved by \<open>(1, 0)\<close>: a
  displacement of magnitude 1, not \<open>-1\<close>, against the direction of the force, and longer
  than the temperature.
\<close>

theorem step_displacement_capped_counterexample:
  "fruchtermanReingoldStep scenarioVertices [] 800 600 50 (- 1) =
     Inr (repelledVertices, 2500000000 / 100020001) \<and>
   map x scenarioVertices = [0, 100] \<and> map x repelledVertices = [1, 99] \<and>
   map dx repelledVertices = [- (2500000000 / 100020001), 2500000000 / 100020001] \<and>
   capDisplacement (- 1) (- (2500000000 / 100020001)) 0 = Inr (1, 0)"
proof -
  have "capDisplacement (- 1) (- (2500000000 / 100020001)) 0 = Inr (1, 0)"
    by (simp add: capDisplacement_horizontal)
  with step_negative_temperature_reverses show ?thesis
    by (simp add: repelledVertices_def scenarioVertices_def)
qed

text \<open>
  C5, amended. In every call to step with \<open>temperature \<ge> 0\<close> (and \<open>k \<noteq> 0\<close> and edge
  endpoints that index the array, so that the call returns), every vertex is moved, before
  the clamp, by a displacement \<open>(ddx, ddy)\<close> of magnitude at most the temperature. For a
  vertex whose accumulated force has a magnitude \<open>disp\<close> above the temperature, the
  displacement is the force scaled by \<open>temperature / disp\<close> (a factor \<open>> 0\<close> when the
  temperature is \<open>> 0\<close>, so the direction is kept) and its magnitude is exactly the
  temperature; for every other vertex it is the force itself. \<open>vs1\<close> is the array after
  the attraction phase, which holds the accumulated forces.
\<close>

theorem step_displacement_capped:
  assumes "k \<noteq> 0" "0 \<le> temperature" "\<forall>e \<in> set es. endpointsOk vs e"
  shows "\<exists>vs1 vs' m.
           attraction k es (repulsion k vs) = Inr vs1 \<and>
           fruchtermanReingoldStep vs es width height k temperature = Inr (vs', m) \<and>
           length vs1 = length vs \<and> length vs' = length vs \<and>
           (\<forall>i < length vs. \<exists>ddx ddy.
              x (vs' ! i) = min width (max 0 (x (vs ! i) + ddx)) \<and>
              y (vs' ! i) = min height (max 0 (y (vs ! i) + ddy)) \<and>
              sqrt (ddx * ddx + ddy * ddy) \<le> temperature \<and>
              (forceMagnitude (vs1 ! i) > temperature \<longrightarrow>
                 sqrt (ddx * ddx + ddy * ddy) = temperature \<and>
                 ddx = (temperature / forceMagnitude (vs1 ! i)) * dx (vs1 ! i) \<and>
                 ddy = (temperature / forceMagnitude (vs1 ! i)) * dy (vs1 ! i) \<and>
                 (0 < temperature \<longrightarrow> 0 < temperature / forceMagnitude (vs1 ! i))) \<and>
              (forceMagnitude (vs1 ! i) \<le> temperature \<longrightarrow>
                 ddx = dx (vs1 ! i) \<and> ddy = dy (vs1 ! i)))"
proof -
  from step_Inr [OF assms(3,1,2)] obtain vs' m where
    s: "fruchtermanReingoldStep vs es width height k temperature = Inr (vs', m)" by blast
  then obtain vs1 where
    a: "attraction k es (repulsion k vs) = Inr vs1" and
    u: "updatePositions width height temperature vs1 0 = Inr (vs', m)"
    by (rule step_Inr_cases)
  from attraction_core [OF a] have
    l1: "length vs1 = length vs" and c1: "map core vs1 = map core vs"
    by (simp_all add: repulsion_length repulsion_core)
  have len: "length vs' = length vs"
    using updatePositions_acc [OF u] l1 by (metis length_map)
  have "\<forall>i < length vs. \<exists>ddx ddy.
              x (vs' ! i) = min width (max 0 (x (vs ! i) + ddx)) \<and>
              y (vs' ! i) = min height (max 0 (y (vs ! i) + ddy)) \<and>
              sqrt (ddx * ddx + ddy * ddy) \<le> temperature \<and>
              (forceMagnitude (vs1 ! i) > temperature \<longrightarrow>
                 sqrt (ddx * ddx + ddy * ddy) = temperature \<and>
                 ddx = (temperature / forceMagnitude (vs1 ! i)) * dx (vs1 ! i) \<and>
                 ddy = (temperature / forceMagnitude (vs1 ! i)) * dy (vs1 ! i) \<and>
                 (0 < temperature \<longrightarrow> 0 < temperature / forceMagnitude (vs1 ! i))) \<and>
              (forceMagnitude (vs1 ! i) \<le> temperature \<longrightarrow>
                 ddx = dx (vs1 ! i) \<and> ddy = dy (vs1 ! i))"
  proof (intro allI impI)
    fix i assume i: "i < length vs"
    then have i1: "i < length vs1" using l1 by simp
    define w where "w = vs1 ! i"
    from updatePositions_nth [OF u i1] have
      mv: "moveVertex width height temperature w = Inr (vs' ! i, forceMagnitude w)"
      by (simp add: w_def)
    from moveVertex_capped [OF assms(2), of w width height] obtain ddx ddy where
      mv': "moveVertex width height temperature w =
             Inr (w\<lparr>x := min width (max 0 (x w + ddx)), y := min height (max 0 (y w + ddy))\<rparr>,
                  forceMagnitude w)" and
      rest: "sqrt (ddx * ddx + ddy * ddy) \<le> temperature"
        "forceMagnitude w > temperature \<longrightarrow>
              sqrt (ddx * ddx + ddy * ddy) = temperature \<and>
              ddx = (temperature / forceMagnitude w) * dx w \<and>
              ddy = (temperature / forceMagnitude w) * dy w \<and>
              (0 < temperature \<longrightarrow> 0 < temperature / forceMagnitude w)"
        "forceMagnitude w \<le> temperature \<longrightarrow> ddx = dx w \<and> ddy = dy w"
      by blast
    from mv mv' have
      "vs' ! i = w\<lparr>x := min width (max 0 (x w + ddx)), y := min height (max 0 (y w + ddy))\<rparr>"
      by simp
    then have "x (vs' ! i) = min width (max 0 (x w + ddx))"
      "y (vs' ! i) = min height (max 0 (y w + ddy))" by simp_all
    moreover from core_nth [OF c1 i] have "x w = x (vs ! i)" "y w = y (vs ! i)"
      by (simp_all add: w_def)
    ultimately have pos: "x (vs' ! i) = min width (max 0 (x (vs ! i) + ddx))"
      "y (vs' ! i) = min height (max 0 (y (vs ! i) + ddy))" by simp_all
    from pos rest have
      "x (vs' ! i) = min width (max 0 (x (vs ! i) + ddx)) \<and>
       y (vs' ! i) = min height (max 0 (y (vs ! i) + ddy)) \<and>
       sqrt (ddx * ddx + ddy * ddy) \<le> temperature \<and>
       (forceMagnitude (vs1 ! i) > temperature \<longrightarrow>
          sqrt (ddx * ddx + ddy * ddy) = temperature \<and>
          ddx = (temperature / forceMagnitude (vs1 ! i)) * dx (vs1 ! i) \<and>
          ddy = (temperature / forceMagnitude (vs1 ! i)) * dy (vs1 ! i) \<and>
          (0 < temperature \<longrightarrow> 0 < temperature / forceMagnitude (vs1 ! i))) \<and>
       (forceMagnitude (vs1 ! i) \<le> temperature \<longrightarrow>
          ddx = dx (vs1 ! i) \<and> ddy = dy (vs1 ! i))"
      unfolding w_def [symmetric] by blast
    then show "\<exists>ddx ddy.
              x (vs' ! i) = min width (max 0 (x (vs ! i) + ddx)) \<and>
              y (vs' ! i) = min height (max 0 (y (vs ! i) + ddy)) \<and>
              sqrt (ddx * ddx + ddy * ddy) \<le> temperature \<and>
              (forceMagnitude (vs1 ! i) > temperature \<longrightarrow>
                 sqrt (ddx * ddx + ddy * ddy) = temperature \<and>
                 ddx = (temperature / forceMagnitude (vs1 ! i)) * dx (vs1 ! i) \<and>
                 ddy = (temperature / forceMagnitude (vs1 ! i)) * dy (vs1 ! i) \<and>
                 (0 < temperature \<longrightarrow> 0 < temperature / forceMagnitude (vs1 ! i))) \<and>
              (forceMagnitude (vs1 ! i) \<le> temperature \<longrightarrow>
                 ddx = dx (vs1 ! i) \<and> ddy = dy (vs1 ! i))"
      by (intro exI)
  qed
  with a s l1 len show ?thesis by blast
qed

theorem step_displacement_capped_witness:
  "\<exists>vs1 vs' m.
      attraction 50 scenarioEdges (repulsion 50 scenarioVertices) = Inr vs1 \<and>
      fruchtermanReingoldStep scenarioVertices scenarioEdges 800 600 50 100 = Inr (vs', m) \<and>
      length vs1 = length scenarioVertices \<and> length vs' = length scenarioVertices \<and>
      (\<forall>i < length scenarioVertices. \<exists>ddx ddy.
         x (vs' ! i) = min 800 (max 0 (x (scenarioVertices ! i) + ddx)) \<and>
         y (vs' ! i) = min 600 (max 0 (y (scenarioVertices ! i) + ddy)) \<and>
         sqrt (ddx * ddx + ddy * ddy) \<le> 100 \<and>
         (forceMagnitude (vs1 ! i) > 100 \<longrightarrow>
            sqrt (ddx * ddx + ddy * ddy) = 100 \<and>
            ddx = (100 / forceMagnitude (vs1 ! i)) * dx (vs1 ! i) \<and>
            ddy = (100 / forceMagnitude (vs1 ! i)) * dy (vs1 ! i) \<and>
            0 < 100 / forceMagnitude (vs1 ! i)) \<and>
         (forceMagnitude (vs1 ! i) \<le> 100 \<longrightarrow>
            ddx = dx (vs1 ! i) \<and> ddy = dy (vs1 ! i)))"
  using step_displacement_capped [of 50 100 scenarioEdges scenarioVertices 800 600]
    scenario_endpointsOk by simp

subsection \<open>C6\<close>

text \<open>
  C6 as stated fails: in the scenario the step returns about 175.02, above the
  temperature 100, while the displacements it applied have magnitude 100.
\<close>

theorem returned_move_exceeds_temperature_counterexample:
  "fruchtermanReingoldStep scenarioVertices scenarioEdges 800 600 50 100 =
     Inr (scenarioResult, scenarioForce) \<and>
   100 < scenarioForce \<and>
   capDisplacement 100 (dx (scenarioResult ! 0)) (dy (scenarioResult ! 0)) = Inr (100, 0) \<and>
   capDisplacement 100 (dx (scenarioResult ! 1)) (dy (scenarioResult ! 1)) = Inr (- 100, 0)"
  using scenario_step_general [of 800 600 "\<lparr>source = 0, target = 1\<rparr>"] scenario_cap
    scenarioForce_bounds
  by (simp add: scenarioEdges_def scenarioResult_def)

text \<open>
  C6, amended. The step returns the maximum, over all vertices, of the magnitude of the
  accumulated force as it stands after the attraction phase and before the temperature
  cap (line 94 computes it, and the cap does not update it), and 0 on the empty graph.
  The fields \<open>dx\<close> and \<open>dy\<close> of the returned vertices still hold these forces. The value
  is not bounded by the temperature.
\<close>

theorem step_returns_max_force:
  assumes "k \<noteq> 0" "0 \<le> temperature" "\<forall>e \<in> set es. endpointsOk vs e"
  shows "\<exists>vs1 vs' m.
           attraction k es (repulsion k vs) = Inr vs1 \<and>
           fruchtermanReingoldStep vs es width height k temperature = Inr (vs', m) \<and>
           m = Max (insert 0 (forceMagnitude ` set vs1)) \<and>
           map dx vs' = map dx vs1 \<and> map dy vs' = map dy vs1"
proof -
  from step_Inr [OF assms(3,1,2)] obtain vs' m where
    s: "fruchtermanReingoldStep vs es width height k temperature = Inr (vs', m)" by blast
  then obtain vs1 where
    a: "attraction k es (repulsion k vs) = Inr vs1" and
    u: "updatePositions width height temperature vs1 0 = Inr (vs', m)"
    by (rule step_Inr_cases)
  from updatePositions_max [OF u] have "m = Max (insert 0 (forceMagnitude ` set vs1))"
    by simp
  with a s updatePositions_acc [OF u] show ?thesis by blast
qed

theorem step_returns_max_force_witness:
  "\<exists>vs1 vs' m.
      attraction 50 scenarioEdges (repulsion 50 scenarioVertices) = Inr vs1 \<and>
      fruchtermanReingoldStep scenarioVertices scenarioEdges 800 600 50 100 = Inr (vs', m) \<and>
      m = Max (insert 0 (forceMagnitude ` set vs1)) \<and>
      map dx vs' = map dx vs1 \<and> map dy vs' = map dy vs1"
  using step_returns_max_force [of 50 100 scenarioEdges scenarioVertices 800 600]
    scenario_endpointsOk by simp

subsection \<open>C7\<close>

text \<open>
  C7. For an edge whose endpoints index the array and \<open>k \<noteq> 0\<close>, the attraction loop
  subtracts the force \<open>(fx, fy)\<close> from the accumulators of the source and adds the same
  \<open>(fx, fy)\<close> to those of the target: what the target gains is the exact negation of what
  the source gains. (For a self-loop the force is \<open>(0, 0)\<close>.) This happens in the
  attraction phase, before any displacement is capped.
\<close>

theorem attraction_symmetric:
  assumes "endpointsOk vs e" "k \<noteq> 0"
  shows "\<exists>vs' fx fy.
           attractEdge k e vs = Inr vs' \<and>
           edgeForce k (vs ! nat (source e)) (vs ! nat (target e)) = (fx, fy) \<and>
           dx (vs' ! nat (source e)) = dx (vs ! nat (source e)) - fx \<and>
           dy (vs' ! nat (source e)) = dy (vs ! nat (source e)) - fy \<and>
           dx (vs' ! nat (target e)) = dx (vs ! nat (target e)) + fx \<and>
           dy (vs' ! nat (target e)) = dy (vs ! nat (target e)) + fy"
proof -
  from attractEdge_Inr [OF assms] obtain vs' where a: "attractEdge k e vs = Inr vs'" by blast
  from attractEdge_Inr_iff [OF a] obtain v u fx fy where
    lv: "lookup vs (source e) = Some v" and lu: "lookup vs (target e) = Some u" and
    f: "edgeForce k v u = (fx, fy)" and
    r: "vs' = (vs[nat (source e) := v\<lparr>dx := dx v - fx, dy := dy v - fy\<rparr>])
                [nat (target e) :=
                   ((vs[nat (source e) := v\<lparr>dx := dx v - fx, dy := dy v - fy\<rparr>]) ! nat (target e))
                   \<lparr>dx := dx ((vs[nat (source e) := v\<lparr>dx := dx v - fx, dy := dy v - fy\<rparr>]) ! nat (target e)) + fx,
                    dy := dy ((vs[nat (source e) := v\<lparr>dx := dx v - fx, dy := dy v - fy\<rparr>]) ! nat (target e)) + fy\<rparr>]"
    by blast
  from lookup_Some [OF lv] have s: "nat (source e) < length vs" and v: "v = vs ! nat (source e)"
    by simp_all
  from lookup_Some [OF lu] have t: "nat (target e) < length vs" and u: "u = vs ! nat (target e)"
    by simp_all
  show ?thesis
  proof (cases "nat (source e) = nat (target e)")
    case True
    then have "u = v" using u v by simp
    with f have z: "fx = 0" "fy = 0" by (simp_all add: edgeForce_self)
    have "vs' ! nat (source e) = v" "vs' ! nat (target e) = v"
      unfolding r using True s v by (simp_all add: z)
    with a f z v u \<open>u = v\<close> show ?thesis by simp
  next
    case False
    have "vs' ! nat (source e) = v\<lparr>dx := dx v - fx, dy := dy v - fy\<rparr>"
      unfolding r using False s by simp
    moreover have "vs' ! nat (target e) = u\<lparr>dx := dx u + fx, dy := dy u + fy\<rparr>"
      unfolding r using False t u by simp
    ultimately show ?thesis using a f v u by simp
  qed
qed

theorem attraction_symmetric_witness:
  "\<exists>vs' fx fy.
      attractEdge 50 \<lparr>source = 0, target = 1\<rparr> scenarioVertices = Inr vs' \<and>
      edgeForce 50 (scenarioVertices ! 0) (scenarioVertices ! 1) = (fx, fy) \<and>
      dx (vs' ! 0) = - fx \<and> dy (vs' ! 0) = - fy \<and> dx (vs' ! 1) = fx \<and> dy (vs' ! 1) = fy"
  using attraction_symmetric [of scenarioVertices "\<lparr>source = 0, target = 1\<rparr>" 50]
  by (simp add: endpointsOk_def scenarioVertices_def)

subsection \<open>C8\<close>

text \<open>
  C8. Cooling multiplies the temperature by 0.95, which strictly decreases every
  temperature \<open>> 0\<close>. Starting from 100, the temperature stays positive, is at least the
  floor 1 after each of the first 89 applications and below it after 90 and ever after:
  the number 90 depends on nothing but the three constants.
\<close>

theorem cooling_reaches_floor:
  "(\<forall>t. 0 < t \<longrightarrow> cool t < t) \<and>
   (\<forall>n. temperatureAfter (Suc n) = cool (temperatureAfter n)) \<and>
   (\<forall>n. 0 < temperatureAfter n) \<and>
   (\<forall>n. n < 90 \<longrightarrow> 1 \<le> temperatureAfter n) \<and>
   (\<forall>n. 90 \<le> n \<longrightarrow> temperatureAfter n < 1)"
proof (intro conjI allI impI)
  fix t :: real assume "0 < t"
  then show "cool t < t" by (simp add: cool_def)
next
  fix n show "temperatureAfter (Suc n) = cool (temperatureAfter n)"
    by (simp add: temperatureAfter_def)
next
  fix n show "0 < temperatureAfter n" by (simp add: temperatureAfter_power)
next
  fix n :: nat assume "n < 90"
  then have "n \<le> 89" by simp
  from temperatureAfter_antimono [OF this] temperatureAfter_89
  show "1 \<le> temperatureAfter n" by simp
next
  fix n :: nat assume "90 \<le> n"
  from temperatureAfter_antimono [OF this] temperatureAfter_90
  show "temperatureAfter n < 1" by simp
qed

theorem cooling_reaches_floor_witness:
  "cool 100 < 100 \<and> 1 \<le> temperatureAfter 89 \<and> temperatureAfter 90 < 1"
  using cooling_reaches_floor by simp

subsection \<open>C9\<close>

text \<open>
  C9. Two vertex arrays that agree on every id, \<open>x\<close> and \<open>y\<close> give the same outcome of the
  step, whatever their incoming \<open>dx\<close> and \<open>dy\<close>: the same positions and the same returned
  maximum (indeed the same exception, if any).
\<close>

theorem step_ignores_incoming_accumulators:
  assumes "map id' vs1 = map id' vs2" "map x vs1 = map x vs2" "map y vs1 = map y vs2"
  shows "fruchtermanReingoldStep vs1 es width height k temperature
       = fruchtermanReingoldStep vs2 es width height k temperature"
proof -
  have "map core vs1 = map core vs2"
  proof (rule nth_equalityI)
    show "length (map core vs1) = length (map core vs2)"
      using assms(1) by (metis length_map)
  next
    fix i assume i: "i < length (map core vs1)"
    then have i1: "i < length vs1" by simp
    then have i2: "i < length vs2" using assms(1) by (metis length_map)
    from assms(1) have "map id' vs1 ! i = map id' vs2 ! i" by simp
    moreover from assms(2) have "map x vs1 ! i = map x vs2 ! i" by simp
    moreover from assms(3) have "map y vs1 ! i = map y vs2 ! i" by simp
    ultimately show "map core vs1 ! i = map core vs2 ! i"
      using i1 i2 by (simp add: core_def)
  qed
  then have "repulsion k vs1 = repulsion k vs2"
    unfolding repulsion_def by (rule repulsionLoop_cong)
  then show ?thesis by (simp add: fruchtermanReingoldStep_def)
qed

theorem step_ignores_incoming_accumulators_witness:
  "fruchtermanReingoldStep
     [\<lparr>id' = 0, x = 0, y = 0, dx = 7, dy = - 3\<rparr>, \<lparr>id' = 1, x = 100, y = 0, dx = 1, dy = 2\<rparr>]
     scenarioEdges 800 600 50 100
   = fruchtermanReingoldStep scenarioVertices scenarioEdges 800 600 50 100"
  using step_ignores_incoming_accumulators
    [of "[\<lparr>id' = 0, x = 0, y = 0, dx = 7, dy = - 3\<rparr>, \<lparr>id' = 1, x = 100, y = 0, dx = 1, dy = 2\<rparr>]"
      scenarioVertices scenarioEdges 800 600 50 100]
  by (simp add: scenarioVertices_def)

subsection \<open>C10\<close>

text \<open>
  C10 as stated fails in what it says of the generator: not every graph the generator
  returns has its edge endpoints in \<open>[0, |V|)\<close>. Called with \<open>-3\<close> vertices and one edge it
  returns no vertex and the edge from \<open>-2\<close> to \<open>-3\<close>; both array accesses of the attraction
  phase are then out of bounds, and the step throws.
\<close>

theorem attraction_endpoints_counterexample:
  "generateRandomGraph negativeRandom (- 3) 1 =
     Some \<lparr>vertices = [], edges = [\<lparr>source = - 2, target = - 3\<rparr>]\<rparr> \<and>
   lookup [] (- 2) = None \<and> lookup [] (- 3) = None \<and>
   fruchtermanReingoldStep [] [\<lparr>source = - 2, target = - 3\<rparr>] 800 600 50 100 = Inl TypeError"
  using negative_generate negative_graph_throws by (simp add: lookup_def)

text \<open>
  C10, amended. Let the vertex at position \<open>i\<close> have id \<open>i\<close> and every edge endpoint lie
  in \<open>[0, |V|)\<close>. The array keeps its ids through the repulsion phase and through every
  iteration of the attraction loop, and in every array with these ids the accesses
  \<^verbatim>\<open>vertices[e.source]\<close> and \<^verbatim>\<open>vertices[e.target]\<close> of every edge are in bounds and
  yield the vertices with these ids, whatever \<open>k\<close> is. For \<open>k \<noteq> 0\<close> the attraction phase
  runs to its end, each iteration subtracts the force of its edge from the
  accumulators of the vertex with id \<open>e.source\<close>, adds it to those of the vertex with id
  \<open>e.target\<close> and changes nothing else, and the phase returns the array after the last
  iteration. Both conditions hold for every graph the generator
  returns when called with \<open>numVertices \<ge> 0\<close> or \<open>numEdges \<le> 0\<close> (for random numbers in
  \<open>[0, 1)\<close>).
\<close>

theorem attraction_applied_to_endpoints:
  "(idsAreIndices vs \<and> (\<forall>e \<in> set es. endpointsOk vs e) \<longrightarrow>
      map id' (repulsion k vs) = map id' vs \<and>
      (\<forall>(ws :: Vertex list) ws' e. map id' ws = map id' vs \<and> attractEdge k e ws = Inr ws' \<longrightarrow>
         map id' ws' = map id' vs) \<and>
      (\<forall>(ws :: Vertex list) e. map id' ws = map id' vs \<and> e \<in> set es \<longrightarrow>
         (\<exists>v u. lookup ws (source e) = Some v \<and> id' v = source e \<and>
                lookup ws (target e) = Some u \<and> id' u = target e)) \<and>
      (k \<noteq> 0 \<longrightarrow>
         (\<exists>final. attraction k es (repulsion k vs) = Inr final \<and>
                  attractionAppliedToEndpoints k es (repulsion k vs) final))) \<and>
   ((\<forall>i. 0 \<le> rnd i \<and> rnd i < 1) \<and> (0 \<le> numVertices \<or> numEdges \<le> 0) \<and>
    generateRandomGraph rnd numVertices numEdges = Some g \<longrightarrow>
      idsAreIndices (vertices g) \<and> (\<forall>e \<in> set (edges g). endpointsOk (vertices g) e))"
proof -
  have ids: "map id' (repulsion k vs) = map id' vs"
    by (rule map_core_ids [OF repulsion_core])
  have keep: "\<forall>(ws :: Vertex list) ws' e.
      map id' ws = map id' vs \<and> attractEdge k e ws = Inr ws' \<longrightarrow> map id' ws' = map id' vs"
  proof (intro allI impI)
    fix ws ws' :: "Vertex list" and e
    assume "map id' ws = map id' vs \<and> attractEdge k e ws = Inr ws'"
    then have i: "map id' ws = map id' vs" and a: "attractEdge k e ws = Inr ws'" by simp_all
    from attractEdge_core [OF a] have "map core ws' = map core ws" by simp
    from map_core_ids [OF this] i show "map id' ws' = map id' vs" by simp
  qed
  have look: "\<forall>(ws :: Vertex list) e. map id' ws = map id' vs \<and> e \<in> set es \<longrightarrow>
         (\<exists>v u. lookup ws (source e) = Some v \<and> id' v = source e \<and>
                lookup ws (target e) = Some u \<and> id' u = target e)"
    if h: "idsAreIndices vs \<and> (\<forall>e \<in> set es. endpointsOk vs e)"
  proof (intro allI impI)
    fix ws :: "Vertex list" and e
    assume w: "map id' ws = map id' vs \<and> e \<in> set es"
    with h have "idsAreIndices vs" "endpointsOk vs e" "map id' ws = map id' vs" by simp_all
    then show "\<exists>v u. lookup ws (source e) = Some v \<and> id' v = source e \<and>
                lookup ws (target e) = Some u \<and> id' u = target e"
      by (rule lookups_by_id)
  qed
  have app: "\<exists>final. attraction k es (repulsion k vs) = Inr final \<and>
                  attractionAppliedToEndpoints k es (repulsion k vs) final"
    if h: "idsAreIndices vs \<and> (\<forall>e \<in> set es. endpointsOk vs e)" and k: "k \<noteq> 0"
  proof -
    have e: "\<forall>e \<in> set es. endpointsOk (repulsion k vs) e"
      using h by (simp add: endpointsOk_def repulsion_length)
    have "idsAreIndices (repulsion k vs)"
      using h idsAreIndices_core [OF repulsion_core] by simp
    from attractionAppliedToEndpoints_holds [OF this e k]
    show ?thesis .
  qed
  have gen: "idsAreIndices (vertices g) \<and> (\<forall>e \<in> set (edges g). endpointsOk (vertices g) e)"
    if h: "(\<forall>i. 0 \<le> rnd i \<and> rnd i < 1) \<and> (0 \<le> numVertices \<or> numEdges \<le> 0) \<and>
      generateRandomGraph rnd numVertices numEdges = Some g"
    using h by (intro generate_conditions [of rnd numVertices numEdges g]) simp_all
  show ?thesis
  proof (intro conjI impI)
    show "map id' (repulsion k vs) = map id' vs" by (rule ids)
    show "\<forall>(ws :: Vertex list) ws' e.
      map id' ws = map id' vs \<and> attractEdge k e ws = Inr ws' \<longrightarrow> map id' ws' = map id' vs"
      by (rule keep)
  next
    assume "idsAreIndices vs \<and> (\<forall>e \<in> set es. endpointsOk vs e)"
    then show "\<forall>(ws :: Vertex list) e. map id' ws = map id' vs \<and> e \<in> set es \<longrightarrow>
         (\<exists>v u. lookup ws (source e) = Some v \<and> id' v = source e \<and>
                lookup ws (target e) = Some u \<and> id' u = target e)"
      by (rule look)
  next
    assume h: "idsAreIndices vs \<and> (\<forall>e \<in> set es. endpointsOk vs e)" and k: "k \<noteq> 0"
    from app [OF h k] show "\<exists>final. attraction k es (repulsion k vs) = Inr final \<and>
                  attractionAppliedToEndpoints k es (repulsion k vs) final" .
  next
    assume h: "(\<forall>i. 0 \<le> rnd i \<and> rnd i < 1) \<and> (0 \<le> numVertices \<or> numEdges \<le> 0) \<and>
      generateRandomGraph rnd numVertices numEdges = Some g"
    from gen [OF h] show "idsAreIndices (vertices g)" by simp
    from gen [OF h] show "\<forall>e \<in> set (edges g). endpointsOk (vertices g) e" by simp
  qed
qed

theorem attraction_applied_to_endpoints_witness:
  "(\<exists>final. attraction 50 scenarioEdges (repulsion 50 scenarioVertices) = Inr final \<and>
       attractionAppliedToEndpoints 50 scenarioEdges (repulsion 50 scenarioVertices) final) \<and>
   (\<exists>v u. lookup scenarioResult 0 = Some v \<and> id' v = 0 \<and>
          lookup scenarioResult 1 = Some u \<and> id' u = 1) \<and>
   idsAreIndices (vertices exampleGraph) \<and>
   endpointsOk (vertices exampleGraph) \<lparr>source = 0, target = 1\<rparr>"
proof -
  have pre: "idsAreIndices scenarioVertices \<and>
      (\<forall>e \<in> set scenarioEdges. endpointsOk scenarioVertices e)"
    using scenario_endpointsOk by (simp add: idsAreIndices_def scenarioVertices_def upt_rec)
  have m: "map id' scenarioResult = map id' scenarioVertices"
    by (simp add: scenarioResult_def scenarioVertices_def)
  have e0: "\<lparr>source = 0, target = 1\<rparr> \<in> set scenarioEdges"
    by (simp add: scenarioEdges_def)
  have k: "(50 :: real) \<noteq> 0" by simp
  have gpre: "(\<forall>i. 0 \<le> exampleRandom i \<and> exampleRandom i < 1) \<and>
      ((0 :: int) \<le> 2 \<or> (1 :: int) \<le> 0) \<and>
      generateRandomGraph exampleRandom 2 1 = Some exampleGraph"
    using exampleRandom_range example_generate by simp
  note t = attraction_applied_to_endpoints
    [where vs = scenarioVertices and es = scenarioEdges and k = 50 and rnd = exampleRandom
       and numVertices = 2 and numEdges = 1 and g = exampleGraph]
  note c = t [THEN conjunct1, THEN mp, OF pre]
  note g = t [THEN conjunct2, THEN mp, OF gpre]
  from c k have
    a: "\<exists>final. attraction 50 scenarioEdges (repulsion 50 scenarioVertices) = Inr final \<and>
       attractionAppliedToEndpoints 50 scenarioEdges (repulsion 50 scenarioVertices) final"
    by blast
  from c m e0 have
    "\<exists>v u. lookup scenarioResult (source \<lparr>source = 0, target = 1\<rparr>) = Some v \<and>
               id' v = source \<lparr>source = 0, target = 1\<rparr> \<and>
               lookup scenarioResult (target \<lparr>source = 0, target = 1\<rparr>) = Some u \<and>
               id' u = target \<lparr>source = 0, target = 1\<rparr>"
    by blast
  then have l: "\<exists>v u. lookup scenarioResult 0 = Some v \<and> id' v = 0 \<and>
          lookup scenarioResult 1 = Some u \<and> id' u = 1"
    by simp
  from g have "endpointsOk (vertices exampleGraph) \<lparr>source = 0, target = 1\<rparr>"
    by (simp add: exampleGraph_def)
  with a l g show ?thesis by blast
qed

end
